theory Spec2Isabelle
  imports Main
begin

section \<open>Paths\<close>

text \<open>
  The program handles paths as strings and only through \<open>basename\<close>, \<open>join\<close> and
  \<open>resolve\<close> of the \<open>path\<close> module. A path string is read as a list of segments
  separated by \<open>/\<close>, empty segments dropped, plus the flag saying whether it starts at the
  root. The segments \<open>.\<close> and \<open>..\<close> are not interpreted: they are names like any other.
\<close>

datatype path = Path (absolute: bool) (segments: "string list")

fun splitSegments :: "string \<Rightarrow> string \<Rightarrow> string list" where
  "splitSegments cur [] = (if cur = [] then [] else [cur])"
| "splitSegments cur (c # cs) =
     (if c = CHR ''/''
      then (if cur = [] then splitSegments [] cs else cur # splitSegments [] cs)
      else splitSegments (cur @ [c]) cs)"

definition parsePath :: "string \<Rightarrow> path" where
  "parsePath p =
     Path (case p of [] \<Rightarrow> False | c # _ \<Rightarrow> c = CHR ''/'') (splitSegments [] p)"

text \<open>\<open>basename\<close>: the last segment, the empty string when there is none.\<close>

definition basename :: "string \<Rightarrow> string" where
  "basename p = (case splitSegments [] p of [] \<Rightarrow> [] | x # xs \<Rightarrow> last (x # xs))"

text \<open>
  \<open>join\<close> of a directory and one name. Every name the program joins is a base name or a
  base name with a literal suffix, so it holds no separator; an empty name adds nothing.
\<close>

definition join :: "path \<Rightarrow> string \<Rightarrow> path" where
  "join d n = Path (absolute d) (segments d @ (if n = [] then [] else [n]))"

definition PATCHES_DIR :: string where
  "PATCHES_DIR = ''patches''"

definition showAbsolute :: "string list \<Rightarrow> string" where
  "showAbsolute xs = (if xs = [] then ''/'' else concat (map (\<lambda>x. ''/'' @ x) xs))"

section \<open>The file system\<close>

text \<open>
  The file system is a table from absolute paths (segment lists) to nodes: a regular file
  with its content, a directory, or a symbolic link with the target it stores. The root
  is always a directory. A relative link target is taken from the directory that holds
  the link, as \<open>symlink(2)\<close> has it; links are followed at the last segment of a path
  only, at most \<open>maxSymlinks\<close> times. The only injected fault is a set of entries that
  cannot be removed (\<open>unlink\<close> answers \<open>EPERM\<close>). File contents are text, read and
  written unchanged.
\<close>

datatype node = File string | Dir | Link path

datatype kind = RegularFile | Directory | SymbolicLink

datatype errno = ENOENT | EEXIST | EISDIR | ENOTDIR | ELOOP | EPERM

text \<open>
  What an operation can throw: the error of a file system call; the
  \<open>Error('Failed to apply patch')\<close> of \<open>applyPatch\<close>; the \<open>TypeError\<close> of applying
  element 0 of an empty parse result.
\<close>

datatype error =
    SysError errno
  | ApplyFailed
  | TypeError

record fs =
  cwd :: "string list"
  nodes :: "string list \<Rightarrow> node option"
  undeletable :: "string list \<Rightarrow> bool"

text \<open>
  An asynchronous call is a function from the state before to its result, an error or a
  value, and the state after: a call that fails in the middle keeps what it had done.
  \<open>bindIO\<close> is \<open>await\<close> followed by the rest of the function body.
\<close>

type_synonym 'a io = "fs \<Rightarrow> (error + 'a) \<times> fs"

definition returnIO :: "'a \<Rightarrow> 'a io" where
  "returnIO x s = (Inr x, s)"

definition throwIO :: "error \<Rightarrow> 'a io" where
  "throwIO e s = (Inl e, s)"

definition bindIO :: "'a io \<Rightarrow> ('a \<Rightarrow> 'b io) \<Rightarrow> 'b io" where
  "bindIO m f s = (case m s of (Inl e, s') \<Rightarrow> (Inl e, s') | (Inr x, s') \<Rightarrow> f x s')"

text \<open>\<open>.catch(() => {})\<close>: whatever the promise did, the result is success.\<close>

definition swallow :: "unit io \<Rightarrow> unit io" where
  "swallow m s = (case m s of (r, s') \<Rightarrow> (Inr (), s'))"

definition resolve :: "fs \<Rightarrow> path \<Rightarrow> string list" where
  "resolve s p = (if absolute p then segments p else cwd s @ segments p)"

definition lookup :: "fs \<Rightarrow> string list \<Rightarrow> node option" where
  "lookup s a = (if a = [] then Some Dir else nodes s a)"

definition isDir :: "fs \<Rightarrow> string list \<Rightarrow> bool" where
  "isDir s a = (lookup s a = Some Dir)"

definition isLink :: "fs \<Rightarrow> string list \<Rightarrow> bool" where
  "isLink s a = (case lookup s a of Some (Link t) \<Rightarrow> True | _ \<Rightarrow> False)"

definition setNode :: "string list \<Rightarrow> node option \<Rightarrow> fs \<Rightarrow> fs" where
  "setNode a v s = s\<lparr>nodes := (nodes s)(a := v)\<rparr>"

definition linkTarget :: "string list \<Rightarrow> path \<Rightarrow> string list" where
  "linkTarget a t = (if absolute t then segments t else butlast a @ segments t)"

fun follow :: "nat \<Rightarrow> fs \<Rightarrow> string list \<Rightarrow> errno + string list" where
  "follow 0 s a = (case lookup s a of Some (Link t) \<Rightarrow> Inl ELOOP | _ \<Rightarrow> Inr a)"
| "follow (Suc k) s a =
     (case lookup s a of Some (Link t) \<Rightarrow> follow k s (linkTarget a t) | _ \<Rightarrow> Inr a)"

definition maxSymlinks :: nat where
  "maxSymlinks = 40"

definition realpath :: "fs \<Rightarrow> path \<Rightarrow> errno + string list" where
  "realpath s p = follow maxSymlinks s (resolve s p)"

text \<open>
  The calls of \<open>fs.promises\<close> the program makes. \<open>readFile\<close>, \<open>writeFile\<close>, \<open>access\<close> and
  both ends of \<open>copyFile\<close> follow a link at the path; \<open>lstat\<close>, \<open>unlink\<close> and the new
  entry of \<open>symlink\<close> take the path itself. \<open>writeFile\<close> creates the file when its
  directory exists and replaces the content otherwise. \<open>copyFile\<close> is a read of the source
  followed by a write of the destination.
\<close>

definition kindOf :: "node \<Rightarrow> kind" where
  "kindOf n = (case n of File _ \<Rightarrow> RegularFile | Dir \<Rightarrow> Directory | Link _ \<Rightarrow> SymbolicLink)"

definition readFile :: "path \<Rightarrow> string io" where
  "readFile p s =
     (case realpath s p of
        Inl e \<Rightarrow> (Inl (SysError e), s)
      | Inr a \<Rightarrow>
          (case lookup s a of
             None \<Rightarrow> (Inl (SysError ENOENT), s)
           | Some (File c) \<Rightarrow> (Inr c, s)
           | Some Dir \<Rightarrow> (Inl (SysError EISDIR), s)
           | Some (Link t) \<Rightarrow> (Inl (SysError ELOOP), s)))"

definition writeFile :: "path \<Rightarrow> string \<Rightarrow> unit io" where
  "writeFile p c s =
     (case realpath s p of
        Inl e \<Rightarrow> (Inl (SysError e), s)
      | Inr a \<Rightarrow>
          (case lookup s a of
             None \<Rightarrow>
               (if isDir s (butlast a)
                then (Inr (), setNode a (Some (File c)) s)
                else (Inl (SysError ENOENT), s))
           | Some (File old) \<Rightarrow> (Inr (), setNode a (Some (File c)) s)
           | Some Dir \<Rightarrow> (Inl (SysError EISDIR), s)
           | Some (Link t) \<Rightarrow> (Inl (SysError ELOOP), s)))"

definition copyFile :: "path \<Rightarrow> path \<Rightarrow> unit io" where
  "copyFile src dest = bindIO (readFile src) (\<lambda>bytes. writeFile dest bytes)"

definition access :: "path \<Rightarrow> unit io" where
  "access p s =
     (case realpath s p of
        Inl e \<Rightarrow> (Inl (SysError e), s)
      | Inr a \<Rightarrow>
          (case lookup s a of
             None \<Rightarrow> (Inl (SysError ENOENT), s)
           | Some n \<Rightarrow> (Inr (), s)))"

definition lstat :: "path \<Rightarrow> kind io" where
  "lstat p s =
     (case lookup s (resolve s p) of
        None \<Rightarrow> (Inl (SysError ENOENT), s)
      | Some n \<Rightarrow> (Inr (kindOf n), s))"

definition unlink :: "path \<Rightarrow> unit io" where
  "unlink p s =
     (let a = resolve s p in
      case lookup s a of
        None \<Rightarrow> (Inl (SysError ENOENT), s)
      | Some Dir \<Rightarrow> (Inl (SysError EISDIR), s)
      | Some n \<Rightarrow>
          (if undeletable s a then (Inl (SysError EPERM), s)
           else (Inr (), setNode a None s)))"

definition symlink :: "path \<Rightarrow> path \<Rightarrow> unit io" where
  "symlink target p s =
     (let a = resolve s p in
      case lookup s a of
        Some n \<Rightarrow> (Inl (SysError EEXIST), s)
      | None \<Rightarrow>
          (if isDir s (butlast a)
           then (Inr (), setNode a (Some (Link target)) s)
           else (Inl (SysError ENOENT), s)))"

text \<open>
  \<open>mkdir\<close> with \<open>recursive: true\<close>: walks the segments from the root, creates what is
  missing, accepts directories that exist, and fails on anything else in the way.
\<close>

fun mkdirFrom :: "string list \<Rightarrow> string list \<Rightarrow> unit io" where
  "mkdirFrom pre [] s = (Inr (), s)"
| "mkdirFrom pre (x # xs) s =
     (let a = pre @ [x] in
      case lookup s a of
        None \<Rightarrow> mkdirFrom a xs (setNode a (Some Dir) s)
      | Some Dir \<Rightarrow> mkdirFrom a xs s
      | Some n \<Rightarrow> (Inl (SysError (if xs = [] then EEXIST else ENOTDIR)), s))"

definition mkdirRecursive :: "path \<Rightarrow> unit io" where
  "mkdirRecursive p s = mkdirFrom [] (resolve s p) s"

section \<open>The diff library\<close>

text \<open>
  The three functions of the \<open>diff\<close> package the program calls are not part of the
  repository: they are a parameter of the model. \<open>parsePatch\<close> takes the \<open>strict\<close> option,
  \<open>diffApply\<close> the \<open>fuzzFactor\<close>, and answers \<open>None\<close> where the package answers
  \<open>false\<close>.
\<close>

record 'p difflib =
  diffCreate :: "string \<Rightarrow> string \<Rightarrow> string \<Rightarrow> string \<Rightarrow> string \<Rightarrow> string"
  parsePatch :: "string \<Rightarrow> bool \<Rightarrow> 'p list"
  diffApply :: "string \<Rightarrow> 'p \<Rightarrow> nat \<Rightarrow> string option"

section \<open>The four operations\<close>

text \<open>
  The paths of a record, as every operation computes them from the path it is given:
  the record directory, the snapshot copy, the patch text, the patched result and the
  backup. All are relative to the working directory.
\<close>

definition patchDirOf :: "string \<Rightarrow> path" where
  "patchDirOf filePath = join (parsePath PATCHES_DIR) (basename filePath)"

definition copyPathOf :: "string \<Rightarrow> path" where
  "copyPathOf filePath = join (patchDirOf filePath) (basename filePath)"

definition patchPathOf :: "string \<Rightarrow> path" where
  "patchPathOf filePath = join (patchDirOf filePath) (basename filePath @ ''.patch'')"

definition patchedPathOf :: "string \<Rightarrow> path" where
  "patchedPathOf filePath = join (patchDirOf filePath) (basename filePath @ ''.patched'')"

definition backupPathOf :: "string \<Rightarrow> path" where
  "backupPathOf filePath =
     join (patchDirOf filePath) (basename filePath @ ''.original.backup'')"

definition ensurePatchesDir :: "unit io" where
  "ensurePatchesDir s =
     (case mkdirRecursive (parsePath PATCHES_DIR) s of
        (Inl (SysError e), s') \<Rightarrow>
          (if e \<noteq> EEXIST then (Inl (SysError e), s') else (Inr (), s'))
      | r \<Rightarrow> r)"

definition createPatch :: "string \<Rightarrow> unit io" where
  "createPatch filePath s =
     (let absoluteFilePath = resolve s (parsePath filePath);
          fileName = basename filePath;
          patchDir = join (parsePath PATCHES_DIR) fileName
      in bindIO ensurePatchesDir (\<lambda>_.
         bindIO (mkdirRecursive patchDir) (\<lambda>_.
         bindIO (readFile (Path True absoluteFilePath)) (\<lambda>originalContent.
         let copyPath = join patchDir fileName in
         bindIO (writeFile copyPath originalContent) (\<lambda>_.
         writeFile (join patchDir ''original-path.txt'') (showAbsolute absoluteFilePath)))))
         s)"

definition commitPatch :: "'p difflib \<Rightarrow> string \<Rightarrow> unit io" where
  "commitPatch lib filePath =
     (let fileName = basename filePath;
          patchDir = join (parsePath PATCHES_DIR) fileName;
          copyPath = join patchDir fileName
      in bindIO (readFile (parsePath filePath)) (\<lambda>originalContent.
         bindIO (readFile copyPath) (\<lambda>modifiedContent.
         let patchContent =
               diffCreate lib fileName originalContent modifiedContent ''original'' ''modified'';
             patchPath = join patchDir (fileName @ ''.patch'')
         in bindIO (writeFile patchPath patchContent) (\<lambda>_.
            swallow (unlink copyPath)))))"

definition applyPatch :: "'p difflib \<Rightarrow> string \<Rightarrow> unit io" where
  "applyPatch lib filePath =
     (let fileName = basename filePath;
          patchDir = join (parsePath PATCHES_DIR) fileName;
          patchPath = join patchDir (fileName @ ''.patch'')
      in bindIO (access patchPath) (\<lambda>_.
         bindIO (readFile (parsePath filePath)) (\<lambda>originalContent.
         bindIO (readFile patchPath) (\<lambda>patchContent.
         let patches = parsePatch lib patchContent False in
         (case patches of
            [] \<Rightarrow> throwIO TypeError
          | first # others \<Rightarrow>
              (case diffApply lib originalContent first 3 of
                 None \<Rightarrow> throwIO ApplyFailed
               | Some result \<Rightarrow>
                   (let patchedPath = join patchDir (fileName @ ''.patched'') in
                    bindIO (writeFile patchedPath result) (\<lambda>_.
                    let backupPath = join patchDir (fileName @ ''.original.backup'') in
                    bindIO (copyFile (parsePath filePath) backupPath) (\<lambda>_.
                    bindIO (unlink (parsePath filePath)) (\<lambda>_.
                    symlink patchedPath (parsePath filePath)))))))))))"

definition revertPatch :: "string \<Rightarrow> unit io" where
  "revertPatch filePath =
     (let fileName = basename filePath;
          patchDir = join (parsePath PATCHES_DIR) fileName;
          backupPath = join patchDir (fileName @ ''.original.backup'');
          patchedPath = join patchDir (fileName @ ''.patched'')
      in bindIO (access backupPath) (\<lambda>_.
         bindIO (lstat (parsePath filePath)) (\<lambda>stats.
         if stats = SymbolicLink
         then bindIO (unlink (parsePath filePath)) (\<lambda>_.
              bindIO (copyFile backupPath (parsePath filePath)) (\<lambda>_.
              bindIO (swallow (unlink backupPath)) (\<lambda>_.
              swallow (unlink patchedPath))))
         else returnIO ())))"

section \<open>Lifecycle runs\<close>

text \<open>
  The files of a record, and the states a file goes through. A run starts where the live
  path is a regular file in an existing directory and the record holds nothing yet; then
  any of the four operations may be called, in any order and with any outcome, and the
  snapshot copy may be edited. The flag says whether the last successful
  \<open>applyPatch\<close> has not been followed by a successful \<open>revertPatch\<close>.
\<close>

definition recordPaths :: "string \<Rightarrow> path list" where
  "recordPaths filePath =
     [copyPathOf filePath, join (patchDirOf filePath) ''original-path.txt'',
      patchPathOf filePath, patchedPathOf filePath, backupPathOf filePath]"

definition untracked :: "string \<Rightarrow> fs \<Rightarrow> bool" where
  "untracked filePath s =
     ((case lookup s (resolve s (parsePath filePath)) of Some (File c) \<Rightarrow> True | _ \<Rightarrow> False) \<and>
      isDir s (butlast (resolve s (parsePath filePath))) \<and>
      list_all (\<lambda>p. lookup s (resolve s p) = None) (recordPaths filePath))"

inductive reachable :: "'p difflib \<Rightarrow> string \<Rightarrow> bool \<Rightarrow> fs \<Rightarrow> bool"
  for lib :: "'p difflib" and filePath :: string where
  start: "untracked filePath s \<Longrightarrow> reachable lib filePath False s"
| create: "reachable lib filePath applied s \<Longrightarrow>
     reachable lib filePath applied (snd (createPatch filePath s))"
| edit: "reachable lib filePath applied s \<Longrightarrow>
     reachable lib filePath applied (snd (writeFile (copyPathOf filePath) content s))"
| commit: "reachable lib filePath applied s \<Longrightarrow>
     reachable lib filePath applied (snd (commitPatch lib filePath s))"
| applySucceeded: "reachable lib filePath applied s \<Longrightarrow>
     fst (applyPatch lib filePath s) = Inr () \<Longrightarrow>
     reachable lib filePath True (snd (applyPatch lib filePath s))"
| applyFailed: "reachable lib filePath applied s \<Longrightarrow>
     fst (applyPatch lib filePath s) = Inl e \<Longrightarrow>
     reachable lib filePath applied (snd (applyPatch lib filePath s))"
| revertSucceeded: "reachable lib filePath applied s \<Longrightarrow>
     fst (revertPatch filePath s) = Inr () \<Longrightarrow>
     reachable lib filePath False (snd (revertPatch filePath s))"
| revertFailed: "reachable lib filePath applied s \<Longrightarrow>
     fst (revertPatch filePath s) = Inl e \<Longrightarrow>
     reachable lib filePath applied (snd (revertPatch filePath s))"

section \<open>A small diff library and sample states\<close>

text \<open>
  One instance of the library parameter, used to run the operations on concrete states.
  Its patch records the old and the new text; it applies where the old text is the start
  of the source, and replaces that start by the new text. The patch document is a header
  line with the three labels, then the old text, a separator and the new text. A patch
  that adds lines after the old text adds them again when it is applied to the patched
  text, as a hunk of a unified diff with leading context does.
\<close>

definition prefixCreate :: "string \<Rightarrow> string \<Rightarrow> string \<Rightarrow> string \<Rightarrow> string \<Rightarrow> string" where
  "prefixCreate name old new oldHeader newHeader =
     name @ '' '' @ oldHeader @ '' '' @ newHeader @ [CHR 0x0A] @ old @ [CHR 0x01] @ new"

definition prefixParse :: "string \<Rightarrow> bool \<Rightarrow> (string \<times> string) list" where
  "prefixParse text strict =
     (let body = drop 1 (dropWhile (\<lambda>c. c \<noteq> CHR 0x0A) text)
      in [(takeWhile (\<lambda>c. c \<noteq> CHR 0x01) body,
           drop 1 (dropWhile (\<lambda>c. c \<noteq> CHR 0x01) body))])"

definition prefixApply :: "string \<Rightarrow> string \<times> string \<Rightarrow> nat \<Rightarrow> string option" where
  "prefixApply source p fuzz =
     (case p of (old, new) \<Rightarrow>
        if take (length old) source = old then Some (new @ drop (length old) source)
        else None)"

definition prefixDiff :: "(string \<times> string) difflib" where
  "prefixDiff =
     \<lparr>diffCreate = prefixCreate, parsePatch = prefixParse, diffApply = prefixApply\<rparr>"

text \<open>
  Sample texts: one line, the same with a second line added, and what the added line
  gives when it is added once more.
\<close>

definition oneLine :: string where
  "oneLine = ''a'' @ [CHR 0x0A]"

definition twoLines :: string where
  "twoLines = ''a'' @ [CHR 0x0A] @ ''b'' @ [CHR 0x0A]"

definition threeLines :: string where
  "threeLines = ''a'' @ [CHR 0x0A] @ ''b'' @ [CHR 0x0A] @ ''b'' @ [CHR 0x0A]"

definition otherLine :: string where
  "otherLine = ''x'' @ [CHR 0x0A]"

text \<open>
  The working directory is \<open>/w\<close>; it holds \<open>a.txt\<close> and a directory \<open>sub\<close> with
  another \<open>a.txt\<close>, both with the one-line text.
\<close>

definition sampleFs :: fs where
  "sampleFs =
     \<lparr>cwd = [''w''],
      nodes = [[''w''] \<mapsto> Dir,
               [''w'', ''a.txt''] \<mapsto> File oneLine,
               [''w'', ''sub''] \<mapsto> Dir,
               [''w'', ''sub'', ''a.txt''] \<mapsto> File oneLine],
      undeletable = (\<lambda>a. False)\<rparr>"

text \<open>
  The states of a run on one of the two files: tracked, snapshot edited, committed,
  applied; and the committed state of \<open>a.txt\<close> with another text in the live file.
\<close>

definition trackedFs :: "string \<Rightarrow> fs" where
  "trackedFs filePath = snd (createPatch filePath sampleFs)"

definition editedFs :: "string \<Rightarrow> fs" where
  "editedFs filePath =
     snd (writeFile (copyPathOf filePath) twoLines (trackedFs filePath))"

definition committedFs :: "string \<Rightarrow> fs" where
  "committedFs filePath = snd (commitPatch prefixDiff filePath (editedFs filePath))"

definition appliedFs :: "string \<Rightarrow> fs" where
  "appliedFs filePath = snd (applyPatch prefixDiff filePath (committedFs filePath))"

definition conflictFs :: fs where
  "conflictFs = snd (writeFile (parsePath ''a.txt'') otherLine (committedFs ''a.txt''))"

text \<open>The same state with every entry below \<open>/w/patches\<close> made undeletable.\<close>

definition lockRecords :: "fs \<Rightarrow> fs" where
  "lockRecords s = s\<lparr>undeletable := (\<lambda>a. take 2 a = [''w'', ''patches''])\<rparr>"

text \<open>
  A state where the record still holds a backup although the live path is a regular
  file again: the revert ran with the record entries undeletable.
\<close>

definition staleFs :: fs where
  "staleFs = snd (revertPatch ''a.txt'' (lockRecords (appliedFs ''a.txt'')))"

text \<open>The same library, its parser answering a second patch after the first.\<close>

definition twoPatchDiff :: "(string \<times> string) difflib" where
  "twoPatchDiff =
     prefixDiff\<lparr>parsePatch := (\<lambda>text strict. prefixParse text strict @ [(''x'', ''y'')])\<rparr>"

section \<open>Assertions on states\<close>

text \<open>
  \<open>hoare P m Q\<close>: from a state where \<open>P\<close> holds, \<open>m\<close> ends with a result and a state that
  satisfy \<open>Q\<close>. \<open>recordOk\<close>: the directory of the live path exists, and no file of the
  record is a symbolic link or the live path itself. \<open>liveAt\<close>: the live path holds the
  given node, the record is in that shape and, when the node is a link, the backup is a
  regular file. \<open>removedAt\<close> and \<open>linkedAt\<close> are the states between the steps of
  \<open>applyPatch\<close> and \<open>revertPatch\<close>: live path removed, or linked, with the backup
  holding the given content.
\<close>

definition hoare :: "(fs \<Rightarrow> bool) \<Rightarrow> 'a io \<Rightarrow> ((error + 'a) \<Rightarrow> fs \<Rightarrow> bool) \<Rightarrow> bool" where
  "hoare P m Q = (\<forall>s. P s \<longrightarrow> Q (fst (m s)) (snd (m s)))"

definition recordOk :: "string \<Rightarrow> fs \<Rightarrow> bool" where
  "recordOk filePath s =
     (isDir s (butlast (resolve s (parsePath filePath))) \<and>
      list_all (\<lambda>p. \<not> isLink s (resolve s p) \<and> resolve s p \<noteq> resolve s (parsePath filePath))
        (recordPaths filePath))"

definition liveAt :: "string \<Rightarrow> node \<Rightarrow> fs \<Rightarrow> bool" where
  "liveAt filePath n s =
     (lookup s (resolve s (parsePath filePath)) = Some n \<and> recordOk filePath s \<and>
      (case n of
         Link t \<Rightarrow> (case lookup s (resolve s (backupPathOf filePath)) of
                      Some (File c) \<Rightarrow> True | _ \<Rightarrow> False)
       | _ \<Rightarrow> True))"

definition removedAt :: "string \<Rightarrow> string \<Rightarrow> fs \<Rightarrow> bool" where
  "removedAt filePath x s =
     (lookup s (resolve s (parsePath filePath)) = None \<and> recordOk filePath s \<and>
      lookup s (resolve s (backupPathOf filePath)) = Some (File x))"

definition linkedAt :: "string \<Rightarrow> string \<Rightarrow> fs \<Rightarrow> bool" where
  "linkedAt filePath x s =
     (liveAt filePath (Link (patchedPathOf filePath)) s \<and>
      lookup s (resolve s (backupPathOf filePath)) = Some (File x))"

section \<open>Paths of a record\<close>

lemma parsePath_PATCHES_DIR: "parsePath PATCHES_DIR = Path False [''patches'']"
  by (simp add: parsePath_def PATCHES_DIR_def)

lemma splitSegments_nonempty: "x \<in> set (splitSegments cur p) \<Longrightarrow> x \<noteq> []"
proof (induction p arbitrary: cur x)
  case Nil
  then show ?case by (auto split: if_splits)
next
  case (Cons c cs)
  then show ?case by (fastforce split: if_splits)
qed

lemma basename_last:
  "segments (parsePath p) \<noteq> [] \<Longrightarrow> basename p = last (segments (parsePath p))"
  by (cases "splitSegments [] p") (simp_all add: basename_def parsePath_def)

lemma basename_empty: "segments (parsePath p) = [] \<Longrightarrow> basename p = []"
  by (simp add: basename_def parsePath_def)

lemma resolve_record:
  "n \<noteq> [] \<Longrightarrow> resolve s (join (patchDirOf p) n) = resolve s (patchDirOf p) @ [n]"
  by (simp add: resolve_def patchDirOf_def join_def parsePath_PATCHES_DIR)

lemma live_ne_record:
  assumes "ext \<noteq> []"
  shows "resolve s (parsePath p) \<noteq> resolve s (join (patchDirOf p) (basename p @ ext))"
proof (cases "segments (parsePath p) = []")
  case True
  then show ?thesis
    by (auto simp add: resolve_def patchDirOf_def join_def parsePath_PATCHES_DIR basename_empty)
next
  case False
  then have l: "last (resolve s (parsePath p)) = basename p"
    by (simp add: resolve_def basename_last)
  have "last (resolve s (join (patchDirOf p) (basename p @ ext))) = basename p @ ext"
    using assms by (simp add: resolve_record)
  with l assms show ?thesis by (metis append_self_conv)
qed

section \<open>The primitives\<close>

lemma cwd_setNode [simp]: "cwd (setNode a v s) = cwd s"
  by (simp add: setNode_def)

lemma undeletable_setNode [simp]: "undeletable (setNode a v s) = undeletable s"
  by (simp add: setNode_def)

lemma resolve_setNode [simp]: "resolve (setNode a v s) p = resolve s p"
  by (simp add: resolve_def)

lemma lookup_setNode:
  "a \<noteq> [] \<Longrightarrow> lookup (setNode a v s) b = (if b = a then v else lookup s b)"
  by (simp add: lookup_def setNode_def)

lemma readFile_state: "snd (readFile p s) = s"
  by (simp add: readFile_def split: sum.split option.split node.split)

lemma access_state: "snd (access p s) = s"
  by (simp add: access_def split: sum.split option.split)

lemma lstat_state: "snd (lstat p s) = s"
  by (simp add: lstat_def split: option.split)

lemma readFile_eq: "fst (readFile p s) = r \<Longrightarrow> readFile p s = (r, s)"
  using readFile_state [of p s] by (cases "readFile p s") simp

lemma access_eq: "fst (access p s) = r \<Longrightarrow> access p s = (r, s)"
  using access_state [of p s] by (cases "access p s") simp

lemma follow_direct: "\<not> isLink s a \<Longrightarrow> follow n s a = Inr a"
  by (cases n) (auto simp add: isLink_def split: option.splits node.splits)

lemma realpath_direct: "\<not> isLink s (resolve s p) \<Longrightarrow> realpath s p = Inr (resolve s p)"
  by (simp add: realpath_def follow_direct)

lemma unlink_other:
  "lookup s b = Some n \<Longrightarrow> resolve s p \<noteq> b \<Longrightarrow> lookup (snd (unlink p s)) b = Some n"
  by (auto simp add: unlink_def Let_def lookup_setNode lookup_def setNode_def
      split: option.split node.split)

lemma unlink_state_cases:
  "snd (unlink p s) = s \<or> snd (unlink p s) = setNode (resolve s p) None s"
  by (simp add: unlink_def Let_def split: option.split node.split)

lemma isLink_None: "lookup s a = None \<Longrightarrow> \<not> isLink s a"
  by (simp add: isLink_def)

lemma isLink_File: "lookup s a = Some (File c) \<Longrightarrow> \<not> isLink s a"
  by (simp add: isLink_def)

lemma readFile_File:
  "lookup s (resolve s p) = Some (File c) \<Longrightarrow> readFile p s = (Inr c, s)"
  by (simp add: readFile_def realpath_direct isLink_File)

lemma writeFile_new:
  "lookup s (resolve s p) = None \<Longrightarrow> isDir s (butlast (resolve s p)) \<Longrightarrow>
   writeFile p c s = (Inr (), setNode (resolve s p) (Some (File c)) s)"
  by (simp add: writeFile_def realpath_direct isLink_None)

lemma copy_ne_patch: "resolve s (copyPathOf p) \<noteq> resolve s (patchPathOf p)"
  by (simp add: copyPathOf_def patchPathOf_def resolve_record)
    (simp add: join_def resolve_def)

section \<open>Hoare rules\<close>

lemma hoareI: "(\<And>s. P s \<Longrightarrow> Q (fst (m s)) (snd (m s))) \<Longrightarrow> hoare P m Q"
  by (simp add: hoare_def)

lemma hoareD: "hoare P m Q \<Longrightarrow> P s \<Longrightarrow> Q (fst (m s)) (snd (m s))"
  by (simp add: hoare_def)

lemma hoare_bind:
  assumes "hoare P m (\<lambda>r s. case r of Inl e \<Rightarrow> Q (Inl e) s | Inr x \<Rightarrow> R x s)"
    and "\<And>x. hoare (R x) (f x) Q"
  shows "hoare P (bindIO m f) Q"
proof (rule hoareI)
  fix s assume "P s"
  from hoareD [OF assms(1) this] show "Q (fst (bindIO m f s)) (snd (bindIO m f s))"
    using hoareD [OF assms(2)]
    by (cases "m s") (auto simp add: bindIO_def split: sum.splits)
qed

lemma hoare_post:
  "hoare P m Q \<Longrightarrow> (\<And>r s. Q r s \<Longrightarrow> Q' r s) \<Longrightarrow> hoare P m Q'"
  by (simp add: hoare_def)

lemma hoare_swallow:
  "hoare P m (\<lambda>r. Q (Inr ())) \<Longrightarrow> hoare P (swallow m) Q"
  by (auto simp add: hoare_def swallow_def split: prod.split)

lemma hoare_readFile: "hoare P (readFile p) (\<lambda>r. P)"
  by (simp add: hoare_def readFile_state)

lemma hoare_access: "hoare P (access p) (\<lambda>r. P)"
  by (simp add: hoare_def access_state)

section \<open>Writes and deletes in the record\<close>

lemma recordOk_setNode:
  assumes "recordOk f s" and "a \<noteq> []" and "lookup s a \<noteq> Some Dir"
    and "\<forall>t. v \<noteq> Some (Link t)"
  shows "recordOk f (setNode a v s)"
proof -
  have "a \<noteq> butlast (resolve s (parsePath f))"
    using assms(1,3) by (auto simp add: recordOk_def isDir_def)
  then show ?thesis
    using assms
    by (auto simp add: recordOk_def isDir_def isLink_def lookup_setNode list_all_iff
        split: option.splits node.splits)
qed

lemma liveAt_setNode:
  assumes "liveAt f n s" and "a \<noteq> []" and "lookup s a \<noteq> Some Dir"
    and "a \<noteq> resolve s (parsePath f)"
    and "\<forall>t. v \<noteq> Some (Link t)"
    and "a = resolve s (backupPathOf f) \<longrightarrow> (\<exists>c. v = Some (File c)) \<or> (\<forall>t. n \<noteq> Link t)"
  shows "liveAt f n (setNode a v s)"
  using assms recordOk_setNode [of f s a v]
  by (auto simp add: liveAt_def lookup_setNode split: node.splits option.splits)

lemma recordPath_direct:
  "recordOk f s \<Longrightarrow> p \<in> set (recordPaths f) \<Longrightarrow> \<not> isLink s (resolve s p)"
  by (simp add: recordOk_def list_all_iff)

lemma recordPath_ne_live:
  "recordOk f s \<Longrightarrow> p \<in> set (recordPaths f) \<Longrightarrow> resolve s p \<noteq> resolve s (parsePath f)"
  by (simp add: recordOk_def list_all_iff)

lemma lookup_nonroot: "lookup s a \<noteq> Some Dir \<Longrightarrow> a \<noteq> []"
  by (auto simp add: lookup_def)

lemma writeFile_direct:
  "\<not> isLink s (resolve s p) \<Longrightarrow>
   writeFile p c s =
     (case lookup s (resolve s p) of
        None \<Rightarrow>
          (if isDir s (butlast (resolve s p))
           then (Inr (), setNode (resolve s p) (Some (File c)) s)
           else (Inl (SysError ENOENT), s))
      | Some (File old) \<Rightarrow> (Inr (), setNode (resolve s p) (Some (File c)) s)
      | Some Dir \<Rightarrow> (Inl (SysError EISDIR), s)
      | Some (Link t) \<Rightarrow> (Inl (SysError ELOOP), s))"
  by (simp add: writeFile_def realpath_direct)

lemma hoare_writeFile_record:
  assumes "p \<in> set (recordPaths f)"
  shows "hoare (liveAt f n) (writeFile p c)
    (\<lambda>r s. liveAt f n s \<and> (r = Inr () \<longrightarrow> lookup s (resolve s p) = Some (File c)))"
proof (rule hoareI)
  fix s assume l: "liveAt f n s"
  then have ok: "recordOk f s" by (simp add: liveAt_def)
  let ?X = "resolve s p"
  have d: "\<not> isLink s ?X" and ne: "?X \<noteq> resolve s (parsePath f)"
    using recordPath_direct [OF ok assms] recordPath_ne_live [OF ok assms] by simp_all
  have set: "lookup s ?X \<noteq> Some Dir \<Longrightarrow>
      liveAt f n (setNode ?X (Some (File c)) s) \<and>
      lookup (setNode ?X (Some (File c)) s) ?X = Some (File c)"
    using liveAt_setNode [OF l _ _ ne, of "Some (File c)"] lookup_nonroot [of s ?X]
    by (simp add: lookup_setNode)
  show "liveAt f n (snd (writeFile p c s)) \<and>
      (fst (writeFile p c s) = Inr () \<longrightarrow>
       lookup (snd (writeFile p c s)) (resolve (snd (writeFile p c s)) p) = Some (File c))"
    using l set by (auto simp add: writeFile_direct [OF d] split: option.splits node.splits)
qed

lemma unlink_cases:
  "unlink p s =
     (case lookup s (resolve s p) of
        None \<Rightarrow> (Inl (SysError ENOENT), s)
      | Some Dir \<Rightarrow> (Inl (SysError EISDIR), s)
      | Some n \<Rightarrow>
          (if undeletable s (resolve s p) then (Inl (SysError EPERM), s)
           else (Inr (), setNode (resolve s p) None s)))"
  by (simp add: unlink_def Let_def)

lemma hoare_unlink_record:
  assumes "p \<in> set (recordPaths f)"
    and "(\<forall>s. resolve s p \<noteq> resolve s (backupPathOf f)) \<or> (\<forall>t. n \<noteq> Link t)"
  shows "hoare (liveAt f n) (unlink p) (\<lambda>r. liveAt f n)"
proof (rule hoareI)
  fix s assume l: "liveAt f n s"
  then have ok: "recordOk f s" by (simp add: liveAt_def)
  let ?X = "resolve s p"
  have ne: "?X \<noteq> resolve s (parsePath f)"
    using recordPath_ne_live [OF ok assms(1)] by simp
  have set: "lookup s ?X \<noteq> Some Dir \<Longrightarrow> liveAt f n (setNode ?X None s)"
    using liveAt_setNode [OF l _ _ ne, of None] lookup_nonroot [of s ?X] assms(2)
    by auto
  show "liveAt f n (snd (unlink p s))"
    using l set by (auto simp add: unlink_cases split: option.splits node.splits)
qed

section \<open>Creating directories\<close>

lemma mkdirFrom_grows:
  "cwd (snd (mkdirFrom pre xs s)) = cwd s \<and>
   (\<forall>b. lookup (snd (mkdirFrom pre xs s)) b = lookup s b \<or>
        (lookup s b = None \<and> lookup (snd (mkdirFrom pre xs s)) b = Some Dir))"
proof (induction xs arbitrary: pre s)
  case Nil
  then show ?case by simp
next
  case (Cons x xs)
  show ?case
  proof (cases "lookup s (pre @ [x])")
    case None
    have "\<And>b. lookup (setNode (pre @ [x]) (Some Dir) s) b =
        (if b = pre @ [x] then Some Dir else lookup s b)"
      by (simp add: lookup_setNode)
    with None Cons [of "pre @ [x]" "setNode (pre @ [x]) (Some Dir) s"] show ?thesis
      by (simp add: Let_def) metis
  next
    case (Some n)
    with Cons [of "pre @ [x]" s] show ?thesis
      by (cases n) (simp_all add: Let_def)
  qed
qed

lemma liveAt_grows:
  assumes "liveAt f n s" and "cwd s' = cwd s"
    and "\<forall>b. lookup s' b = lookup s b \<or> (lookup s b = None \<and> lookup s' b = Some Dir)"
  shows "liveAt f n s'"
proof -
  have r: "\<And>p. resolve s' p = resolve s p"
    using assms(2) by (simp add: resolve_def)
  have k: "\<And>b v. lookup s b = Some v \<Longrightarrow> lookup s' b = Some v"
    using assms(3) by (metis option.distinct(1))
  have nl: "\<And>b. \<not> isLink s b \<Longrightarrow> \<not> isLink s' b"
    using assms(3) by (auto simp add: isLink_def split: option.splits node.splits) (metis node.distinct option.inject option.distinct(1))+
  show ?thesis
    using assms(1) k nl
    by (auto simp add: liveAt_def recordOk_def r isDir_def list_all_iff
        split: node.splits option.splits)
qed

lemma hoare_mkdirRecursive: "hoare (liveAt f n) (mkdirRecursive p) (\<lambda>r. liveAt f n)"
  using mkdirFrom_grows liveAt_grows by (fastforce simp add: hoare_def mkdirRecursive_def)

section \<open>The operations keep the record in shape\<close>

lemma recordPaths_mem:
  "copyPathOf f \<in> set (recordPaths f)"
  "join (patchDirOf f) ''original-path.txt'' \<in> set (recordPaths f)"
  "patchPathOf f \<in> set (recordPaths f)"
  "patchedPathOf f \<in> set (recordPaths f)"
  "backupPathOf f \<in> set (recordPaths f)"
  by (simp_all add: recordPaths_def)

lemma copy_ne_backup: "resolve s (copyPathOf p) \<noteq> resolve s (backupPathOf p)"
  by (simp add: copyPathOf_def backupPathOf_def resolve_record)
    (simp add: join_def resolve_def)

lemma patched_ne_backup: "resolve s (patchedPathOf p) \<noteq> resolve s (backupPathOf p)"
  by (simp add: patchedPathOf_def backupPathOf_def resolve_record)

lemma hoare_bind_keep:
  assumes "hoare P m (\<lambda>r. P)" and "\<And>x. hoare P (f x) (\<lambda>r. P)"
  shows "hoare P (bindIO m f) (\<lambda>r. P)"
  using assms(1) by (intro hoare_bind [where R = "\<lambda>x. P"] assms(2))
    (auto simp add: hoare_def split: sum.split)

lemma hoare_ensurePatchesDir: "hoare (liveAt f n) ensurePatchesDir (\<lambda>r. liveAt f n)"
proof (rule hoareI)
  fix s assume "liveAt f n s"
  from hoareD [OF hoare_mkdirRecursive this, of "parsePath PATCHES_DIR"]
  show "liveAt f n (snd (ensurePatchesDir s))"
    by (auto simp add: ensurePatchesDir_def split: prod.splits sum.splits error.splits)
qed

lemma createPatch_keeps: "hoare (liveAt f n) (createPatch f) (\<lambda>r. liveAt f n)"
proof (rule hoareI)
  fix s assume l: "liveAt f n s"
  let ?a = "resolve s (parsePath f)"
  let ?m = "bindIO ensurePatchesDir (\<lambda>_.
         bindIO (mkdirRecursive (patchDirOf f)) (\<lambda>_.
         bindIO (readFile (Path True ?a)) (\<lambda>originalContent.
         bindIO (writeFile (copyPathOf f) originalContent) (\<lambda>_.
         writeFile (join (patchDirOf f) ''original-path.txt'') (showAbsolute ?a)))))"
  have w: "\<And>p c. p \<in> set (recordPaths f) \<Longrightarrow> hoare (liveAt f n) (writeFile p c) (\<lambda>r. liveAt f n)"
    by (rule hoare_post [OF hoare_writeFile_record]) simp_all
  have "hoare (liveAt f n) ?m (\<lambda>r. liveAt f n)"
    by (intro hoare_bind_keep hoare_ensurePatchesDir hoare_mkdirRecursive
        hoare_readFile w recordPaths_mem)
  from hoareD [OF this l] show "liveAt f n (snd (createPatch f s))"
    by (simp add: createPatch_def Let_def copyPathOf_def patchDirOf_def)
qed

lemma commitPatch_keeps: "hoare (liveAt f n) (commitPatch lib f) (\<lambda>r. liveAt f n)"
proof -
  have w: "\<And>p c. p \<in> set (recordPaths f) \<Longrightarrow> hoare (liveAt f n) (writeFile p c) (\<lambda>r. liveAt f n)"
    by (rule hoare_post [OF hoare_writeFile_record]) simp_all
  have u: "hoare (liveAt f n) (unlink (copyPathOf f)) (\<lambda>r. liveAt f n)"
    by (rule hoare_unlink_record) (simp_all add: recordPaths_mem copy_ne_backup)
  have "hoare (liveAt f n)
     (bindIO (readFile (parsePath f)) (\<lambda>originalContent.
      bindIO (readFile (copyPathOf f)) (\<lambda>modifiedContent.
      bindIO (writeFile (patchPathOf f)
        (diffCreate lib (basename f) originalContent modifiedContent ''original'' ''modified''))
        (\<lambda>_. swallow (unlink (copyPathOf f))))))
     (\<lambda>r. liveAt f n)"
    by (intro hoare_bind_keep hoare_readFile w recordPaths_mem hoare_swallow u)
  then show ?thesis
    by (simp add: commitPatch_def Let_def copyPathOf_def patchPathOf_def patchDirOf_def)
qed

lemma edit_keeps: "hoare (liveAt f n) (writeFile (copyPathOf f) c) (\<lambda>r. liveAt f n)"
  by (rule hoare_post [OF hoare_writeFile_record]) (simp_all add: recordPaths_mem)

section \<open>Apply and revert\<close>

lemma hoare_bind_pre:
  assumes "hoare P m (\<lambda>r. P)" and "\<And>e s. P s \<Longrightarrow> Q (Inl e) s" and "\<And>x. hoare P (f x) Q"
  shows "hoare P (bindIO m f) Q"
  using assms(1,2) by (intro hoare_bind [where R = "\<lambda>x. P"] assms(3))
    (auto simp add: hoare_def split: sum.split)

lemma hoare_ex: "(\<And>x. hoare (A x) m Q) \<Longrightarrow> hoare (\<lambda>s. \<exists>x. A x s) m Q"
  by (auto simp add: hoare_def)

lemma recordOk_setLive:
  assumes "recordOk f s" and "resolve s (parsePath f) \<noteq> []"
  shows "recordOk f (setNode (resolve s (parsePath f)) v s)"
proof -
  have "butlast (resolve s (parsePath f)) \<noteq> resolve s (parsePath f)"
    using assms(2) by (metis append_butlast_last_id append_self_conv not_Cons_self)
  then show ?thesis
    using assms
    by (auto simp add: recordOk_def isDir_def isLink_def lookup_setNode list_all_iff)
qed

lemma backup_ne_live: "resolve s (backupPathOf f) \<noteq> resolve s (parsePath f)"
  using live_ne_record [of "''.original.backup''" s f] by (simp add: backupPathOf_def)

lemma copyFile_live_backup:
  "hoare (liveAt f n) (copyFile (parsePath f) (backupPathOf f))
     (\<lambda>r s. case r of Inl e \<Rightarrow> liveAt f n s
        | Inr u \<Rightarrow> \<exists>x. (liveAt f n s \<and> lookup s (resolve s (backupPathOf f)) = Some (File x)) \<and>
              (\<forall>c. n = File c \<longrightarrow> x = c))"
proof (rule hoareI)
  fix s assume l: "liveAt f n s"
  let ?m = "copyFile (parsePath f) (backupPathOf f)"
  show "case fst (?m s) of Inl e \<Rightarrow> liveAt f n (snd (?m s))
        | Inr u \<Rightarrow> \<exists>x. (liveAt f n (snd (?m s)) \<and>
              lookup (snd (?m s)) (resolve (snd (?m s)) (backupPathOf f)) = Some (File x)) \<and>
              (\<forall>c. n = File c \<longrightarrow> x = c)"
  proof (cases "fst (readFile (parsePath f) s)")
    case (Inl e)
    then show ?thesis
      using l readFile_eq [OF Inl] by (simp add: copyFile_def bindIO_def)
  next
    case (Inr bytes)
    have c: "\<forall>c. n = File c \<longrightarrow> bytes = c"
      using l Inr by (auto simp add: liveAt_def readFile_File)
    have m: "?m s = writeFile (backupPathOf f) bytes s"
      using readFile_eq [OF Inr] by (simp add: copyFile_def bindIO_def)
    from hoareD [OF hoare_writeFile_record [OF recordPaths_mem(5)] l, of bytes]
    show ?thesis
      using c by (cases "fst (writeFile (backupPathOf f) bytes s)") (auto simp add: m)
  qed
qed

lemma unlink_live:
  "hoare (\<lambda>s. liveAt f n s \<and> lookup s (resolve s (backupPathOf f)) = Some (File x))
     (unlink (parsePath f))
     (\<lambda>r s. case r of Inl e \<Rightarrow> liveAt f n s | Inr u \<Rightarrow> removedAt f x s)"
proof (rule hoareI)
  fix s assume a: "liveAt f n s \<and> lookup s (resolve s (backupPathOf f)) = Some (File x)"
  let ?L = "resolve s (parsePath f)"
  have n: "lookup s ?L = Some n" and ok: "recordOk f s"
    using a by (simp_all add: liveAt_def)
  have "n \<noteq> Dir \<Longrightarrow> removedAt f x (setNode ?L None s)"
    using a n recordOk_setLive [OF ok, of None] lookup_nonroot [of s ?L] backup_ne_live [of s f]
    by (simp add: removedAt_def lookup_setNode)
  then show "case fst (unlink (parsePath f) s) of
      Inl e \<Rightarrow> liveAt f n (snd (unlink (parsePath f) s))
    | Inr u \<Rightarrow> removedAt f x (snd (unlink (parsePath f) s))"
    using a n by (cases n) (simp_all add: unlink_cases)
qed

lemma symlink_live:
  "hoare (removedAt f x) (symlink (patchedPathOf f) (parsePath f))
     (\<lambda>r s. r = Inr () \<and> linkedAt f x s)"
proof (rule hoareI)
  fix s assume a: "removedAt f x s"
  let ?L = "resolve s (parsePath f)"
  have ok: "recordOk f s" and none: "lookup s ?L = None"
    using a by (simp_all add: removedAt_def)
  have ne: "?L \<noteq> []"
    using none by (auto simp add: lookup_def)
  have dir: "isDir s (butlast ?L)"
    using ok by (simp add: recordOk_def)
  have "linkedAt f x (setNode ?L (Some (Link (patchedPathOf f))) s)"
    using a recordOk_setLive [OF ok ne] ne backup_ne_live [of s f]
    by (simp add: linkedAt_def liveAt_def removedAt_def lookup_setNode)
  then show "fst (symlink (patchedPathOf f) (parsePath f) s) = Inr () \<and>
      linkedAt f x (snd (symlink (patchedPathOf f) (parsePath f) s))"
    using none dir by (simp add: symlink_def Let_def)
qed

lemma hoare_bind_err:
  assumes "hoare P m (\<lambda>r s. case r of Inl e \<Rightarrow> E s | Inr x \<Rightarrow> R x s)"
    and "\<And>e s. E s \<Longrightarrow> Q (Inl e) s"
    and "\<And>x. hoare (R x) (f x) Q"
  shows "hoare P (bindIO m f) Q"
  using assms(1,2) by (intro hoare_bind [where R = R] assms(3))
    (auto simp add: hoare_def split: sum.split)

lemma hoare_pure: "(A \<Longrightarrow> hoare P m Q) \<Longrightarrow> hoare (\<lambda>s. P s \<and> A) m Q"
  by (auto simp add: hoare_def)

lemma applyPatch_triple:
  "hoare (liveAt f n) (applyPatch lib f)
     (\<lambda>r s. case r of Inl e \<Rightarrow> liveAt f n s
        | Inr u \<Rightarrow> \<exists>x. linkedAt f x s \<and> (\<forall>c. n = File c \<longrightarrow> x = c))"
  (is "hoare ?P _ ?Q")
proof -
  have link: "hoare (removedAt f x) (symlink (patchedPathOf f) (parsePath f)) ?Q"
    if "\<forall>c. n = File c \<longrightarrow> x = c" for x
    using that by (intro hoare_post [OF symlink_live]) auto
  have drop: "hoare (\<lambda>s. \<exists>x. (liveAt f n s \<and>
        lookup s (resolve s (backupPathOf f)) = Some (File x)) \<and> (\<forall>c. n = File c \<longrightarrow> x = c))
      (bindIO (unlink (parsePath f)) (\<lambda>_. symlink (patchedPathOf f) (parsePath f))) ?Q"
  proof (intro hoare_ex hoare_pure)
    fix x assume c: "\<forall>c. n = File c \<longrightarrow> x = c"
    show "hoare (\<lambda>s. liveAt f n s \<and> lookup s (resolve s (backupPathOf f)) = Some (File x))
        (bindIO (unlink (parsePath f)) (\<lambda>_. symlink (patchedPathOf f) (parsePath f))) ?Q"
      by (rule hoare_bind_err [OF unlink_live]) (simp_all add: link [OF c])
  qed
  have swap: "hoare ?P
      (bindIO (copyFile (parsePath f) (backupPathOf f)) (\<lambda>_.
       bindIO (unlink (parsePath f)) (\<lambda>_. symlink (patchedPathOf f) (parsePath f)))) ?Q"
    by (rule hoare_bind_err [OF copyFile_live_backup], simp, rule drop)
  have w: "hoare ?P (writeFile (patchedPathOf f) c) (\<lambda>r. ?P)" for c
    by (rule hoare_post [OF hoare_writeFile_record]) (simp_all add: recordPaths_mem)
  have tail: "hoare ?P
      (bindIO (writeFile (patchedPathOf f) result) (\<lambda>_.
       bindIO (copyFile (parsePath f) (backupPathOf f)) (\<lambda>_.
       bindIO (unlink (parsePath f)) (\<lambda>_. symlink (patchedPathOf f) (parsePath f))))) ?Q"
    for result
    by (rule hoare_bind_pre [OF w]) (simp_all add: swap)
  have throw: "hoare ?P (throwIO e) ?Q" for e
    by (simp add: hoare_def throwIO_def)
  have choose: "hoare ?P
      (case parsePatch lib patchContent False of
         [] \<Rightarrow> throwIO TypeError
       | first # others \<Rightarrow>
           (case diffApply lib originalContent first 3 of
              None \<Rightarrow> throwIO ApplyFailed
            | Some result \<Rightarrow>
                bindIO (writeFile (patchedPathOf f) result) (\<lambda>_.
                bindIO (copyFile (parsePath f) (backupPathOf f)) (\<lambda>_.
                bindIO (unlink (parsePath f)) (\<lambda>_.
                symlink (patchedPathOf f) (parsePath f)))))) ?Q"
    for patchContent originalContent
    by (simp add: throw tail split: list.split option.split)
  have "hoare ?P
      (bindIO (access (patchPathOf f)) (\<lambda>_.
       bindIO (readFile (parsePath f)) (\<lambda>originalContent.
       bindIO (readFile (patchPathOf f)) (\<lambda>patchContent.
       case parsePatch lib patchContent False of
         [] \<Rightarrow> throwIO TypeError
       | first # others \<Rightarrow>
           (case diffApply lib originalContent first 3 of
              None \<Rightarrow> throwIO ApplyFailed
            | Some result \<Rightarrow>
                bindIO (writeFile (patchedPathOf f) result) (\<lambda>_.
                bindIO (copyFile (parsePath f) (backupPathOf f)) (\<lambda>_.
                bindIO (unlink (parsePath f)) (\<lambda>_.
                symlink (patchedPathOf f) (parsePath f))))))))) ?Q"
    by (intro hoare_bind_pre hoare_access hoare_readFile choose) simp_all
  then show ?thesis
    unfolding applyPatch_def Let_def patchPathOf_def patchedPathOf_def backupPathOf_def
      patchDirOf_def .
qed

lemma copyFile_backup_live:
  "hoare (removedAt f x) (copyFile (backupPathOf f) (parsePath f))
     (\<lambda>r s. r = Inr () \<and> liveAt f (File x) s)"
proof (rule hoareI)
  fix s assume a: "removedAt f x s"
  let ?L = "resolve s (parsePath f)"
  have ok: "recordOk f s" and none: "lookup s ?L = None"
    and b: "lookup s (resolve s (backupPathOf f)) = Some (File x)"
    using a by (simp_all add: removedAt_def)
  have ne: "?L \<noteq> []"
    using none by (auto simp add: lookup_def)
  have dir: "isDir s (butlast ?L)"
    using ok by (simp add: recordOk_def)
  have c: "copyFile (backupPathOf f) (parsePath f) s = (Inr (), setNode ?L (Some (File x)) s)"
    using readFile_File [OF b] writeFile_new [OF none dir]
    by (simp add: copyFile_def bindIO_def)
  have "liveAt f (File x) (setNode ?L (Some (File x)) s)"
    using recordOk_setLive [OF ok ne] ne by (simp add: liveAt_def lookup_setNode)
  with c show "fst (copyFile (backupPathOf f) (parsePath f) s) = Inr () \<and>
      liveAt f (File x) (snd (copyFile (backupPathOf f) (parsePath f) s))"
    by simp
qed

lemma lstat_live:
  "hoare (\<lambda>s. liveAt f n s \<and> A s) (lstat (parsePath f))
     (\<lambda>r s. (liveAt f n s \<and> A s) \<and> r = Inr (kindOf n))"
proof (rule hoareI)
  fix s assume a: "liveAt f n s \<and> A s"
  then have "lstat (parsePath f) s = (Inr (kindOf n), s)"
    by (simp add: lstat_def liveAt_def)
  with a show "(liveAt f n (snd (lstat (parsePath f) s)) \<and> A (snd (lstat (parsePath f) s))) \<and>
      fst (lstat (parsePath f) s) = Inr (kindOf n)"
    by simp
qed

lemma revertPatch_triple:
  "hoare (\<lambda>s. liveAt f n s \<and> (\<forall>t. n = Link t \<longrightarrow>
        lookup s (resolve s (backupPathOf f)) = Some (File x)))
     (revertPatch f)
     (\<lambda>r s. case r of Inl e \<Rightarrow> liveAt f n s
        | Inr u \<Rightarrow> liveAt f (case n of Link t \<Rightarrow> File x | _ \<Rightarrow> n) s)"
  (is "hoare ?P _ ?Q")
proof -
  have u: "hoare (liveAt f (File x)) (unlink p) (\<lambda>r. liveAt f (File x))"
    if "p \<in> set (recordPaths f)" for p
    using that by (intro hoare_unlink_record) simp_all
  have clean: "hoare (liveAt f (File x))
      (bindIO (swallow (unlink (backupPathOf f))) (\<lambda>_. swallow (unlink (patchedPathOf f))))
      (\<lambda>r s. r = Inr () \<and> liveAt f (File x) s)"
  proof (rule hoareI)
    fix s assume l: "liveAt f (File x) s"
    let ?m = "bindIO (swallow (unlink (backupPathOf f)))
        (\<lambda>_. swallow (unlink (patchedPathOf f)))"
    let ?s1 = "snd (unlink (backupPathOf f) s)"
    have e: "?m s = (Inr (), snd (unlink (patchedPathOf f) ?s1))"
      by (simp add: bindIO_def swallow_def split: prod.split)
    have "liveAt f (File x) (snd (unlink (patchedPathOf f) ?s1))"
      using hoareD [OF u [OF recordPaths_mem(4)] hoareD [OF u [OF recordPaths_mem(5)] l]] .
    then show "fst (?m s) = Inr () \<and> liveAt f (File x) (snd (?m s))"
      by (simp add: e)
  qed
  have restore: "hoare (removedAt f x)
      (bindIO (copyFile (backupPathOf f) (parsePath f)) (\<lambda>_.
       bindIO (swallow (unlink (backupPathOf f))) (\<lambda>_. swallow (unlink (patchedPathOf f)))))
      (\<lambda>r s. r = Inr () \<and> liveAt f (File x) s)"
  proof (rule hoare_bind [where R = "\<lambda>u. liveAt f (File x)"])
    show "hoare (removedAt f x) (copyFile (backupPathOf f) (parsePath f))
        (\<lambda>r s. case r of Inl e \<Rightarrow> Inl e = Inr () \<and> liveAt f (File x) s
           | Inr u \<Rightarrow> liveAt f (File x) s)"
      by (rule hoare_post [OF copyFile_backup_live]) simp
  qed (rule clean)
  have undo: "hoare (\<lambda>s. liveAt f n s \<and> lookup s (resolve s (backupPathOf f)) = Some (File x))
      (bindIO (unlink (parsePath f)) (\<lambda>_.
       bindIO (copyFile (backupPathOf f) (parsePath f)) (\<lambda>_.
       bindIO (swallow (unlink (backupPathOf f))) (\<lambda>_. swallow (unlink (patchedPathOf f))))))
      (\<lambda>r s. case r of Inl e \<Rightarrow> liveAt f n s | Inr u \<Rightarrow> liveAt f (File x) s)"
    by (rule hoare_bind_err [OF unlink_live], simp, rule hoare_post [OF restore], simp)
  have branch: "hoare (\<lambda>s. ?P s \<and> stats = kindOf n)
      (if stats = SymbolicLink
       then bindIO (unlink (parsePath f)) (\<lambda>_.
            bindIO (copyFile (backupPathOf f) (parsePath f)) (\<lambda>_.
            bindIO (swallow (unlink (backupPathOf f))) (\<lambda>_.
            swallow (unlink (patchedPathOf f)))))
       else returnIO ()) ?Q" for stats
  proof (cases n)
    case (Link t)
    then show ?thesis
      using undo by (auto simp add: hoare_def kindOf_def split: sum.splits)
  qed (auto simp add: hoare_def kindOf_def returnIO_def)
  have look: "hoare ?P
      (bindIO (lstat (parsePath f)) (\<lambda>stats.
         if stats = SymbolicLink
         then bindIO (unlink (parsePath f)) (\<lambda>_.
              bindIO (copyFile (backupPathOf f) (parsePath f)) (\<lambda>_.
              bindIO (swallow (unlink (backupPathOf f))) (\<lambda>_.
              swallow (unlink (patchedPathOf f)))))
         else returnIO ())) ?Q"
  proof (rule hoare_bind [where R = "\<lambda>stats s. ?P s \<and> stats = kindOf n"])
    show "hoare ?P (lstat (parsePath f))
        (\<lambda>r s. case r of Inl e \<Rightarrow> ?Q (Inl e) s | Inr stats \<Rightarrow> ?P s \<and> stats = kindOf n)"
      by (rule hoare_post [OF lstat_live]) auto
  qed (rule branch)
  have "hoare ?P
      (bindIO (access (backupPathOf f)) (\<lambda>_.
       bindIO (lstat (parsePath f)) (\<lambda>stats.
         if stats = SymbolicLink
         then bindIO (unlink (parsePath f)) (\<lambda>_.
              bindIO (copyFile (backupPathOf f) (parsePath f)) (\<lambda>_.
              bindIO (swallow (unlink (backupPathOf f))) (\<lambda>_.
              swallow (unlink (patchedPathOf f)))))
         else returnIO ()))) ?Q"
    by (rule hoare_bind_pre [OF hoare_access], simp, rule look)
  then show ?thesis
    unfolding revertPatch_def Let_def patchedPathOf_def backupPathOf_def patchDirOf_def .
qed

section \<open>Runs keep the live path in shape\<close>

lemma untracked_liveAt:
  assumes "untracked f s"
  shows "\<exists>c. liveAt f (File c) s"
proof -
  obtain c where c: "lookup s (resolve s (parsePath f)) = Some (File c)"
    using assms by (auto simp add: untracked_def split: option.splits node.splits)
  have "recordOk f s"
    using assms c by (auto simp add: untracked_def recordOk_def list_all_iff isLink_def)
  with c show ?thesis
    by (auto simp add: liveAt_def)
qed

lemma reachable_liveAt:
  "reachable lib f a s \<Longrightarrow>
   \<exists>n. liveAt f n s \<and> (if a then n = Link (patchedPathOf f) else (\<exists>c. n = File c))"
proof (induction rule: reachable.induct)
  case (start s)
  then show ?case using untracked_liveAt by fastforce
next
  case (create applied s)
  then show ?case using hoareD [OF createPatch_keeps] by blast
next
  case (edit applied s content)
  then show ?case using hoareD [OF edit_keeps] by blast
next
  case (commit applied s)
  then show ?case using hoareD [OF commitPatch_keeps] by blast
next
  case (applySucceeded applied s)
  then obtain n where n: "liveAt f n s" by blast
  from hoareD [OF applyPatch_triple n, of lib] applySucceeded.hyps(2) show ?case
    by (auto simp add: linkedAt_def)
next
  case (applyFailed applied s e)
  then obtain n where n: "liveAt f n s"
    "if applied then n = Link (patchedPathOf f) else \<exists>c. n = File c"
    by blast
  from hoareD [OF applyPatch_triple n(1), of lib] applyFailed.hyps(2)
  have "liveAt f n (snd (applyPatch lib f s))" by simp
  with n(2) show ?case by blast
next
  case (revertSucceeded applied s)
  then obtain n where n: "liveAt f n s"
    "if applied then n = Link (patchedPathOf f) else \<exists>c. n = File c"
    by blast
  obtain x where x: "\<forall>t. n = Link t \<longrightarrow> lookup s (resolve s (backupPathOf f)) = Some (File x)"
    using n(1) by (cases n) (auto simp add: liveAt_def split: option.splits node.splits)
  have "liveAt f (case n of Link t \<Rightarrow> File x | _ \<Rightarrow> n) (snd (revertPatch f s))"
    using hoareD [OF revertPatch_triple [of f n x], of s] n(1) x revertSucceeded.hyps(2) by simp
  then show ?case
    using n(2) by (auto split: if_splits)
next
  case (revertFailed applied s e)
  then obtain n where n: "liveAt f n s"
    "if applied then n = Link (patchedPathOf f) else \<exists>c. n = File c"
    by blast
  obtain x where x: "\<forall>t. n = Link t \<longrightarrow> lookup s (resolve s (backupPathOf f)) = Some (File x)"
    using n(1) by (cases n) (auto simp add: liveAt_def split: option.splits node.splits)
  have "liveAt f n (snd (revertPatch f s))"
    using hoareD [OF revertPatch_triple [of f n x], of s] n(1) x revertFailed.hyps(2) by simp
  with n(2) show ?case by blast
qed

section \<open>What a step leaves alone\<close>

lemma cwd_writeFile: "cwd (snd (writeFile p c s)) = cwd s"
  by (simp add: writeFile_def split: sum.split option.split node.split)

lemma cwd_unlink: "cwd (snd (unlink p s)) = cwd s"
  by (simp add: unlink_cases split: option.split node.split)

lemma cwd_symlink: "cwd (snd (symlink t p s)) = cwd s"
  by (simp add: symlink_def Let_def split: option.split)

lemma cwd_copyFile: "cwd (snd (copyFile a b s)) = cwd s"
  using readFile_state [of a s]
  by (cases "readFile a s") (auto simp add: copyFile_def bindIO_def cwd_writeFile split: sum.split)

lemma writeFile_frame:
  "\<not> isLink s (resolve s p) \<Longrightarrow> b \<noteq> resolve s p \<Longrightarrow>
   lookup (snd (writeFile p c s)) b = lookup s b"
  using lookup_nonroot [of s "resolve s p"]
  by (auto simp add: writeFile_direct lookup_setNode split: option.split node.split)

lemma unlink_frame: "b \<noteq> resolve s p \<Longrightarrow> lookup (snd (unlink p s)) b = lookup s b"
  using lookup_nonroot [of s "resolve s p"]
  by (auto simp add: unlink_cases lookup_setNode split: option.split node.split)

lemma symlink_frame: "b \<noteq> resolve s p \<Longrightarrow> lookup (snd (symlink t p s)) b = lookup s b"
  by (auto simp add: symlink_def Let_def lookup_setNode lookup_def setNode_def
      split: option.split)

lemma copyFile_frame:
  "\<not> isLink s (resolve s d) \<Longrightarrow> b \<noteq> resolve s d \<Longrightarrow>
   lookup (snd (copyFile a d s)) b = lookup s b"
  using readFile_state [of a s]
  by (cases "readFile a s") (auto simp add: copyFile_def bindIO_def writeFile_frame split: sum.split)

lemma resolve_cwd: "cwd s' = cwd s \<Longrightarrow> resolve s' p = resolve s p"
  by (simp add: resolve_def)

lemma swap_frame:
  assumes "\<not> isLink s (resolve s (backupPathOf f))"
    and "b \<noteq> resolve s (backupPathOf f)" and "b \<noteq> resolve s (parsePath f)"
  shows "lookup (snd ((bindIO (copyFile (parsePath f) (backupPathOf f)) (\<lambda>_.
       bindIO (unlink (parsePath f)) (\<lambda>_. symlink (patchedPathOf f) (parsePath f)))) s)) b =
     lookup s b"
proof -
  let ?sb = "snd (copyFile (parsePath f) (backupPathOf f) s)"
  let ?sc = "snd (unlink (parsePath f) ?sb)"
  let ?sd = "snd (symlink (patchedPathOf f) (parsePath f) ?sc)"
  have rb: "resolve ?sb p = resolve s p" for p
    by (rule resolve_cwd) (rule cwd_copyFile)
  have rc: "resolve ?sc p = resolve s p" for p
    using resolve_cwd [OF cwd_unlink, of "parsePath f" ?sb p] by (simp add: rb)
  have b: "lookup ?sb b = lookup s b"
    using assms(1,2) by (rule copyFile_frame)
  have c: "lookup ?sc b = lookup s b"
    using assms(3) unlink_frame [of b ?sb "parsePath f"] by (simp add: rb b)
  have d: "lookup ?sd b = lookup s b"
    using assms(3) symlink_frame [of b ?sc "parsePath f"] by (simp add: rc c)
  show ?thesis
    using b c d
    by (cases "copyFile (parsePath f) (backupPathOf f) s";
        cases "unlink (parsePath f) ?sb")
      (auto simp add: bindIO_def split: sum.splits)
qed

lemma patched_ne_live: "resolve s (patchedPathOf f) \<noteq> resolve s (parsePath f)"
  using live_ne_record [of "''.patched''" s f] by (simp add: patchedPathOf_def)

lemma apply_patched_content:
  assumes l: "liveAt f (File c) s"
    and ok: "fst (applyPatch lib f s) = Inr ()"
  shows "\<exists>t first others result.
      fst (readFile (patchPathOf f) s) = Inr t \<and>
      parsePatch lib t False = first # others \<and>
      diffApply lib c first 3 = Some result \<and>
      lookup (snd (applyPatch lib f s)) (resolve s (patchedPathOf f)) = Some (File result)"
proof -
  let ?swap = "bindIO (copyFile (parsePath f) (backupPathOf f)) (\<lambda>_.
       bindIO (unlink (parsePath f)) (\<lambda>_. symlink (patchedPathOf f) (parsePath f)))"
  let ?choose = "\<lambda>originalContent patchContent.
       case parsePatch lib patchContent False of
         [] \<Rightarrow> throwIO TypeError
       | first # others \<Rightarrow>
           (case diffApply lib originalContent first 3 of
              None \<Rightarrow> throwIO ApplyFailed
            | Some result \<Rightarrow> bindIO (writeFile (patchedPathOf f) result) (\<lambda>_. ?swap))"
  have unfolded: "applyPatch lib f =
      bindIO (access (patchPathOf f)) (\<lambda>_.
      bindIO (readFile (parsePath f)) (\<lambda>originalContent.
      bindIO (readFile (patchPathOf f)) (\<lambda>patchContent.
      ?choose originalContent patchContent)))"
    unfolding applyPatch_def Let_def patchPathOf_def patchedPathOf_def backupPathOf_def
      patchDirOf_def ..
  have live: "readFile (parsePath f) s = (Inr c, s)"
    using l by (simp add: liveAt_def readFile_File)
  have acc: "access (patchPathOf f) s = (Inr (), s)"
    using ok access_eq [of "patchPathOf f" s]
    by (cases "fst (access (patchPathOf f) s)") (simp_all add: unfolded bindIO_def)
  obtain t where t: "readFile (patchPathOf f) s = (Inr t, s)"
    using ok readFile_eq [of "patchPathOf f" s]
    by (cases "fst (readFile (patchPathOf f) s)") (simp_all add: unfolded bindIO_def acc live)
  have run: "applyPatch lib f s = ?choose c t s"
    by (simp add: unfolded bindIO_def acc live t)
  obtain first others where p: "parsePatch lib t False = first # others"
    using ok by (cases "parsePatch lib t False") (simp_all add: run throwIO_def)
  obtain result where d: "diffApply lib c first 3 = Some result"
    using ok by (cases "diffApply lib c first 3") (simp_all add: run p throwIO_def)
  have run': "applyPatch lib f s = bindIO (writeFile (patchedPathOf f) result) (\<lambda>_. ?swap) s"
    by (simp add: run p d)
  let ?sa = "snd (writeFile (patchedPathOf f) result s)"
  have w: "fst (writeFile (patchedPathOf f) result s) = Inr ()"
    using ok by (cases "writeFile (patchedPathOf f) result s")
      (auto simp add: run' bindIO_def split: sum.splits)
  from hoareD [OF hoare_writeFile_record [OF recordPaths_mem(4)] l, of result] w
  have la: "liveAt f (File c) ?sa"
    and q: "lookup ?sa (resolve ?sa (patchedPathOf f)) = Some (File result)"
    by simp_all
  have ra: "resolve ?sa p = resolve s p" for p
    by (rule resolve_cwd) (rule cwd_writeFile)
  have run'': "applyPatch lib f s = ?swap ?sa"
    using w by (cases "writeFile (patchedPathOf f) result s") (simp add: run' bindIO_def)
  have "\<not> isLink ?sa (resolve ?sa (backupPathOf f))"
    using la recordPath_direct [OF _ recordPaths_mem(5)] by (simp add: liveAt_def)
  from swap_frame [OF this, of "resolve s (patchedPathOf f)"]
  have "lookup (snd (?swap ?sa)) (resolve s (patchedPathOf f)) = Some (File result)"
    using q patched_ne_backup [of s f] patched_ne_live [of s f] by (simp add: ra)
  with t p d show ?thesis
    by (auto simp add: run'')
qed

section \<open>The working directory stays\<close>

lemma hoare_cwd_writeFile: "hoare (\<lambda>s. cwd s = k) (writeFile p c) (\<lambda>r s. cwd s = k)"
  by (simp add: hoare_def cwd_writeFile)

lemma hoare_cwd_unlink: "hoare (\<lambda>s. cwd s = k) (unlink p) (\<lambda>r s. cwd s = k)"
  by (simp add: hoare_def cwd_unlink)

lemma hoare_cwd_symlink: "hoare (\<lambda>s. cwd s = k) (symlink t p) (\<lambda>r s. cwd s = k)"
  by (simp add: hoare_def cwd_symlink)

lemma hoare_cwd_copyFile: "hoare (\<lambda>s. cwd s = k) (copyFile a b) (\<lambda>r s. cwd s = k)"
  by (simp add: hoare_def cwd_copyFile)

lemma hoare_cwd_mkdirRecursive:
  "hoare (\<lambda>s. cwd s = k) (mkdirRecursive p) (\<lambda>r s. cwd s = k)"
  using mkdirFrom_grows by (simp add: hoare_def mkdirRecursive_def)

lemma hoare_cwd_ensurePatchesDir:
  "hoare (\<lambda>s. cwd s = k) ensurePatchesDir (\<lambda>r s. cwd s = k)"
proof (rule hoareI)
  fix s :: fs assume "cwd s = k"
  from hoareD [OF hoare_cwd_mkdirRecursive this, of "parsePath PATCHES_DIR"]
  show "cwd (snd (ensurePatchesDir s)) = k"
    by (auto simp add: ensurePatchesDir_def split: prod.splits sum.splits error.splits)
qed

lemma cwd_createPatch: "cwd (snd (createPatch f s)) = cwd s"
proof -
  let ?a = "resolve s (parsePath f)"
  let ?m = "bindIO ensurePatchesDir (\<lambda>_.
         bindIO (mkdirRecursive (patchDirOf f)) (\<lambda>_.
         bindIO (readFile (Path True ?a)) (\<lambda>originalContent.
         bindIO (writeFile (copyPathOf f) originalContent) (\<lambda>_.
         writeFile (join (patchDirOf f) ''original-path.txt'') (showAbsolute ?a)))))"
  have "hoare (\<lambda>t. cwd t = cwd s) ?m (\<lambda>r t. cwd t = cwd s)"
    by (intro hoare_bind_keep hoare_cwd_ensurePatchesDir hoare_cwd_mkdirRecursive
        hoare_readFile hoare_cwd_writeFile)
  from hoareD [OF this, of s] show ?thesis
    by (simp add: createPatch_def Let_def copyPathOf_def patchDirOf_def)
qed

lemma cwd_commitPatch: "cwd (snd (commitPatch lib f s)) = cwd s"
proof -
  have "hoare (\<lambda>t. cwd t = cwd s)
     (bindIO (readFile (parsePath f)) (\<lambda>originalContent.
      bindIO (readFile (copyPathOf f)) (\<lambda>modifiedContent.
      bindIO (writeFile (patchPathOf f)
        (diffCreate lib (basename f) originalContent modifiedContent ''original'' ''modified''))
        (\<lambda>_. swallow (unlink (copyPathOf f))))))
     (\<lambda>r t. cwd t = cwd s)"
    by (intro hoare_bind_keep hoare_readFile hoare_cwd_writeFile hoare_swallow hoare_cwd_unlink)
  from hoareD [OF this, of s] show ?thesis
    by (simp add: commitPatch_def Let_def copyPathOf_def patchPathOf_def patchDirOf_def)
qed

lemma cwd_applyPatch: "cwd (snd (applyPatch lib f s)) = cwd s"
proof -
  have throw: "hoare (\<lambda>t. cwd t = cwd s) (throwIO e) (\<lambda>r t. cwd t = cwd s)" for e :: error
    by (simp add: hoare_def throwIO_def)
  have tail: "hoare (\<lambda>t. cwd t = cwd s)
      (bindIO (writeFile (patchedPathOf f) result) (\<lambda>_.
       bindIO (copyFile (parsePath f) (backupPathOf f)) (\<lambda>_.
       bindIO (unlink (parsePath f)) (\<lambda>_. symlink (patchedPathOf f) (parsePath f)))))
      (\<lambda>r t. cwd t = cwd s)" for result
    by (intro hoare_bind_keep hoare_cwd_writeFile hoare_cwd_copyFile hoare_cwd_unlink
        hoare_cwd_symlink)
  have choose: "hoare (\<lambda>t. cwd t = cwd s)
      (case parsePatch lib patchContent False of
         [] \<Rightarrow> throwIO TypeError
       | first # others \<Rightarrow>
           (case diffApply lib originalContent first 3 of
              None \<Rightarrow> throwIO ApplyFailed
            | Some result \<Rightarrow>
                bindIO (writeFile (patchedPathOf f) result) (\<lambda>_.
                bindIO (copyFile (parsePath f) (backupPathOf f)) (\<lambda>_.
                bindIO (unlink (parsePath f)) (\<lambda>_.
                symlink (patchedPathOf f) (parsePath f))))))
      (\<lambda>r t. cwd t = cwd s)" for patchContent originalContent
    by (simp add: throw tail split: list.split option.split)
  have "hoare (\<lambda>t. cwd t = cwd s)
      (bindIO (access (patchPathOf f)) (\<lambda>_.
       bindIO (readFile (parsePath f)) (\<lambda>originalContent.
       bindIO (readFile (patchPathOf f)) (\<lambda>patchContent.
       case parsePatch lib patchContent False of
         [] \<Rightarrow> throwIO TypeError
       | first # others \<Rightarrow>
           (case diffApply lib originalContent first 3 of
              None \<Rightarrow> throwIO ApplyFailed
            | Some result \<Rightarrow>
                bindIO (writeFile (patchedPathOf f) result) (\<lambda>_.
                bindIO (copyFile (parsePath f) (backupPathOf f)) (\<lambda>_.
                bindIO (unlink (parsePath f)) (\<lambda>_.
                symlink (patchedPathOf f) (parsePath f)))))))))
      (\<lambda>r t. cwd t = cwd s)"
    by (intro hoare_bind_keep hoare_access hoare_readFile choose)
  then have "hoare (\<lambda>t. cwd t = cwd s) (applyPatch lib f) (\<lambda>r t. cwd t = cwd s)"
    unfolding applyPatch_def Let_def patchPathOf_def patchedPathOf_def backupPathOf_def
      patchDirOf_def .
  from hoareD [OF this, of s] show ?thesis by simp
qed

section \<open>The round trip for a file of the working directory\<close>

lemma follow_link:
  "lookup s a = Some (Link t) \<Longrightarrow> \<not> isLink s (linkTarget a t) \<Longrightarrow>
   follow (Suc n) s a = Inr (linkTarget a t)"
  by (simp add: follow_direct)

lemma apply_resolves_in_cwd:
  assumes l: "liveAt f (File c) s"
    and ok: "fst (applyPatch lib f s) = Inr ()"
    and here: "butlast (resolve s (parsePath f)) = cwd s"
  shows "\<exists>t first others result.
      fst (readFile (patchPathOf f) s) = Inr t \<and>
      parsePatch lib t False = first # others \<and>
      diffApply lib c first 3 = Some result \<and>
      fst (readFile (parsePath f) (snd (applyPatch lib f s))) = Inr result"
proof -
  let ?s' = "snd (applyPatch lib f s)"
  let ?L = "resolve s (parsePath f)"
  let ?Q = "resolve s (patchedPathOf f)"
  obtain t first others result where
    t: "fst (readFile (patchPathOf f) s) = Inr t"
    and p: "parsePatch lib t False = first # others"
    and d: "diffApply lib c first 3 = Some result"
    and q: "lookup ?s' ?Q = Some (File result)"
    using apply_patched_content [OF l ok] by blast
  have r: "resolve ?s' p = resolve s p" for p
    by (rule resolve_cwd) (rule cwd_applyPatch)
  from hoareD [OF applyPatch_triple l, of lib] ok
  have "lookup ?s' ?L = Some (Link (patchedPathOf f))"
    by (simp add: linkedAt_def liveAt_def r)
  moreover have "linkTarget ?L (patchedPathOf f) = ?Q"
    using here by (simp add: linkTarget_def resolve_def patchedPathOf_def patchDirOf_def
        join_def parsePath_PATCHES_DIR)
  ultimately have "realpath ?s' (parsePath f) = Inr ?Q"
    using q follow_link [of ?s' ?L "patchedPathOf f" 39]
    by (simp add: realpath_def maxSymlinks_def r isLink_def)
  then have "fst (readFile (parsePath f) ?s') = Inr result"
    using q by (simp add: readFile_def)
  with t p d show ?thesis by blast
qed

lemma commit_patch_content:
  assumes l: "liveAt f (File c) s"
    and e: "lookup s (resolve s (copyPathOf f)) = Some (File d)"
    and ok: "fst (commitPatch lib f s) = Inr ()"
  shows "lookup (snd (commitPatch lib f s)) (resolve s (patchPathOf f)) =
    Some (File (diffCreate lib (basename f) c d ''original'' ''modified''))"
proof -
  let ?text = "diffCreate lib (basename f) c d ''original'' ''modified''"
  let ?sa = "snd (writeFile (patchPathOf f) ?text s)"
  have unfolded: "commitPatch lib f =
      bindIO (readFile (parsePath f)) (\<lambda>originalContent.
      bindIO (readFile (copyPathOf f)) (\<lambda>modifiedContent.
      bindIO (writeFile (patchPathOf f)
        (diffCreate lib (basename f) originalContent modifiedContent ''original'' ''modified''))
        (\<lambda>_. swallow (unlink (copyPathOf f)))))"
    unfolding commitPatch_def Let_def copyPathOf_def patchPathOf_def patchDirOf_def ..
  have live: "readFile (parsePath f) s = (Inr c, s)"
    using l by (simp add: liveAt_def readFile_File)
  have copy: "readFile (copyPathOf f) s = (Inr d, s)"
    using e by (rule readFile_File)
  have run: "commitPatch lib f s =
      bindIO (writeFile (patchPathOf f) ?text) (\<lambda>_. swallow (unlink (copyPathOf f))) s"
    by (simp add: unfolded bindIO_def live copy)
  have w: "fst (writeFile (patchPathOf f) ?text s) = Inr ()"
    using ok by (cases "writeFile (patchPathOf f) ?text s")
      (auto simp add: run bindIO_def split: sum.splits)
  from hoareD [OF hoare_writeFile_record [OF recordPaths_mem(3)] l, of ?text] w
  have q: "lookup ?sa (resolve ?sa (patchPathOf f)) = Some (File ?text)"
    by simp
  have ra: "resolve ?sa p = resolve s p" for p
    by (rule resolve_cwd) (rule cwd_writeFile)
  have run': "snd (commitPatch lib f s) = snd (unlink (copyPathOf f) ?sa)"
    using w by (cases "writeFile (patchPathOf f) ?text s")
      (simp add: run bindIO_def swallow_def split: prod.split)
  show ?thesis
    using q unlink_frame [of "resolve s (patchPathOf f)" ?sa "copyPathOf f"]
      copy_ne_patch [of s f]
    by (simp add: run' ra)
qed

section \<open>A patch that does not apply\<close>

text \<open>
  Claim C2. When the patch text is there, the live file and the patch text can be read,
  and the library cannot match the first parsed patch against the live content with the
  fuzz factor 3, \<open>applyPatch\<close> fails with the error it throws for that case and the file
  system is the one it started from: the live file keeps its kind and content, and
  neither the patched result nor the backup is written.
\<close>

theorem apply_conflict_atomic:
  assumes "fst (access (patchPathOf filePath) s) = Inr ()"
    and "fst (readFile (parsePath filePath) s) = Inr originalContent"
    and "fst (readFile (patchPathOf filePath) s) = Inr patchContent"
    and "parsePatch lib patchContent False = first # others"
    and "diffApply lib originalContent first 3 = None"
  shows "applyPatch lib filePath s = (Inl ApplyFailed, s)"
  using assms(4,5) access_eq [OF assms(1)] readFile_eq [OF assms(2)] readFile_eq [OF assms(3)]
  by (simp add: applyPatch_def patchPathOf_def patchDirOf_def bindIO_def throwIO_def Let_def)

theorem apply_conflict_atomic_witness:
  "applyPatch prefixDiff ''a.txt'' conflictFs = (Inl ApplyFailed, conflictFs) \<and>
   fst (lstat (parsePath ''a.txt'') conflictFs) = Inr RegularFile \<and>
   fst (readFile (parsePath ''a.txt'') conflictFs) = Inr otherLine \<and>
   fst (access (patchedPathOf ''a.txt'') conflictFs) = Inl (SysError ENOENT) \<and>
   fst (access (backupPathOf ''a.txt'') conflictFs) = Inl (SysError ENOENT)"
proof -
  have a: "fst (access (patchPathOf ''a.txt'') conflictFs) = Inr ()"
    by code_simp
  have b: "fst (readFile (parsePath ''a.txt'') conflictFs) = Inr otherLine"
    by code_simp
  have c: "fst (readFile (patchPathOf ''a.txt'') conflictFs) =
      Inr (prefixCreate ''a.txt'' oneLine twoLines ''original'' ''modified'')"
    by code_simp
  have d: "parsePatch prefixDiff
      (prefixCreate ''a.txt'' oneLine twoLines ''original'' ''modified'') False =
      (oneLine, twoLines) # []"
    by code_simp
  have e: "diffApply prefixDiff otherLine (oneLine, twoLines) 3 = None"
    by code_simp
  have f: "fst (lstat (parsePath ''a.txt'') conflictFs) = Inr RegularFile"
    by code_simp
  have g: "fst (access (patchedPathOf ''a.txt'') conflictFs) = Inl (SysError ENOENT)"
    by code_simp
  have h: "fst (access (backupPathOf ''a.txt'') conflictFs) = Inl (SysError ENOENT)"
    by code_simp
  show ?thesis
    using apply_conflict_atomic [OF a b c d e] b f g h by simp
qed

section \<open>Only the first parsed patch is applied\<close>

text \<open>
  Claim C10. \<open>applyPatch\<close> uses the first element of what \<open>parsePatch\<close> answers and
  nothing after it: it does exactly what it would do if the parser had answered the
  first patch alone.
\<close>

theorem apply_first_patch_only:
  "applyPatch lib filePath s =
   applyPatch (lib\<lparr>parsePatch := \<lambda>text strict. take 1 (parsePatch lib text strict)\<rparr>)
     filePath s"
  by (simp add: applyPatch_def bindIO_def Let_def split: prod.split sum.split list.split)

theorem apply_first_patch_only_witness:
  "parsePatch twoPatchDiff
     (prefixCreate ''a.txt'' oneLine twoLines ''original'' ''modified'') False =
     [(oneLine, twoLines), (''x'', ''y'')] \<and>
   fst (applyPatch twoPatchDiff ''a.txt'' (committedFs ''a.txt'')) = Inr () \<and>
   fst (readFile (parsePath ''a.txt'')
          (snd (applyPatch twoPatchDiff ''a.txt'' (committedFs ''a.txt'')))) =
     Inr twoLines"
proof -
  have a: "parsePatch twoPatchDiff
     (prefixCreate ''a.txt'' oneLine twoLines ''original'' ''modified'') False =
     [(oneLine, twoLines), (''x'', ''y'')]"
    by code_simp
  let ?first = "twoPatchDiff\<lparr>parsePatch :=
      \<lambda>text strict. take 1 (parsePatch twoPatchDiff text strict)\<rparr>"
  have b: "fst (applyPatch ?first ''a.txt'' (committedFs ''a.txt'')) = Inr ()"
    by code_simp
  have c: "fst (readFile (parsePath ''a.txt'')
          (snd (applyPatch ?first ''a.txt'' (committedFs ''a.txt'')))) = Inr twoLines"
    by code_simp
  show ?thesis
    using a b c apply_first_patch_only [of twoPatchDiff "''a.txt''" "committedFs ''a.txt''"]
    by simp
qed

section \<open>Reverting a file that is not linked\<close>

text \<open>
  Claim C3, as stated, fails. \<open>revertPatch\<close> looks for the backup before it looks at
  the live path, and only \<open>applyPatch\<close> writes a backup. For a file that was tracked,
  edited and committed but never applied, for one that is only tracked, and for one that
  is not tracked at all, the live path is a regular file and \<open>revertPatch\<close> fails with
  \<open>ENOENT\<close>.
\<close>

theorem revert_noop_counterexample:
  "fst (lstat (parsePath ''a.txt'') (committedFs ''a.txt'')) = Inr RegularFile \<and>
   fst (revertPatch ''a.txt'' (committedFs ''a.txt'')) = Inl (SysError ENOENT) \<and>
   fst (lstat (parsePath ''a.txt'') (trackedFs ''a.txt'')) = Inr RegularFile \<and>
   fst (revertPatch ''a.txt'' (trackedFs ''a.txt'')) = Inl (SysError ENOENT) \<and>
   fst (lstat (parsePath ''a.txt'') sampleFs) = Inr RegularFile \<and>
   fst (revertPatch ''a.txt'' sampleFs) = Inl (SysError ENOENT)"
  by code_simp

text \<open>
  Claim C3, amended. When the live path is a regular file, \<open>revertPatch\<close> changes nothing
  in the file system, and its result is that of looking for the backup: success when the
  backup path leads to an existing entry, the error \<open>ENOENT\<close> when the backup is missing.
\<close>

theorem revert_noop:
  assumes "lookup s (resolve s (parsePath filePath)) = Some (File content)"
  shows "revertPatch filePath s =
    ((case realpath s (backupPathOf filePath) of
        Inl e \<Rightarrow> Inl (SysError e)
      | Inr a \<Rightarrow> (case lookup s a of None \<Rightarrow> Inl (SysError ENOENT) | Some n \<Rightarrow> Inr ())), s)"
proof -
  have "revertPatch filePath s = (fst (access (backupPathOf filePath) s), s)"
    using assms access_state [of "backupPathOf filePath" s]
    by (auto simp add: Let_def revertPatch_def backupPathOf_def patchDirOf_def bindIO_def
        lstat_def kindOf_def returnIO_def split: prod.split sum.split)
  then show ?thesis
    by (simp add: access_def split: sum.split option.split)
qed

theorem revert_noop_witness:
  "revertPatch ''a.txt'' staleFs = (Inr (), staleFs) \<and>
   revertPatch ''a.txt'' (committedFs ''a.txt'') =
     (Inl (SysError ENOENT), committedFs ''a.txt'')"
proof -
  have a: "lookup staleFs (resolve staleFs (parsePath ''a.txt'')) = Some (File oneLine)"
    by code_simp
  have b: "(case realpath staleFs (backupPathOf ''a.txt'') of
        Inl e \<Rightarrow> Inl (SysError e)
      | Inr a \<Rightarrow> (case lookup staleFs a of None \<Rightarrow> Inl (SysError ENOENT) | Some n \<Rightarrow> Inr ()))
      = Inr ()"
    by code_simp
  have c: "lookup (committedFs ''a.txt'')
      (resolve (committedFs ''a.txt'') (parsePath ''a.txt'')) = Some (File oneLine)"
    by code_simp
  have d: "(case realpath (committedFs ''a.txt'') (backupPathOf ''a.txt'') of
        Inl e \<Rightarrow> Inl (SysError e)
      | Inr a \<Rightarrow>
          (case lookup (committedFs ''a.txt'') a of
             None \<Rightarrow> Inl (SysError ENOENT) | Some n \<Rightarrow> Inr ()))
      = Inl (SysError ENOENT)"
    by code_simp
  show ?thesis
    using revert_noop [OF a] revert_noop [OF c] b d by simp
qed

section \<open>Deletes whose failure is swallowed\<close>

text \<open>
  Claim C9. Once \<open>commitPatch\<close> has read both files and written the patch text, it
  succeeds whatever the deletion of the snapshot copy does; once \<open>revertPatch\<close> has
  removed the link and copied the backup to the live path, it succeeds whatever the
  deletions of the backup and of the patched result do. The final state is the one the
  deletes leave, removed entry or not.
\<close>

theorem cleanup_best_effort:
  "(fst (readFile (parsePath filePath) s) = Inr originalContent \<longrightarrow>
    fst (readFile (copyPathOf filePath) s) = Inr modifiedContent \<longrightarrow>
    writeFile (patchPathOf filePath)
      (diffCreate lib (basename filePath) originalContent modifiedContent
         ''original'' ''modified'') s = (Inr (), s1) \<longrightarrow>
    commitPatch lib filePath s = (Inr (), snd (unlink (copyPathOf filePath) s1))) \<and>
   (fst (access (backupPathOf filePath) s) = Inr () \<longrightarrow>
    fst (lstat (parsePath filePath) s) = Inr SymbolicLink \<longrightarrow>
    unlink (parsePath filePath) s = (Inr (), s2) \<longrightarrow>
    copyFile (backupPathOf filePath) (parsePath filePath) s2 = (Inr (), s3) \<longrightarrow>
    revertPatch filePath s =
      (Inr (), snd (unlink (patchedPathOf filePath) (snd (unlink (backupPathOf filePath) s3)))))"
proof (intro conjI impI)
  assume a: "fst (readFile (parsePath filePath) s) = Inr originalContent"
    and b: "fst (readFile (copyPathOf filePath) s) = Inr modifiedContent"
    and c: "writeFile (patchPathOf filePath)
      (diffCreate lib (basename filePath) originalContent modifiedContent
         ''original'' ''modified'') s = (Inr (), s1)"
  show "commitPatch lib filePath s = (Inr (), snd (unlink (copyPathOf filePath) s1))"
    using readFile_eq [OF a] readFile_eq [OF b] c
    by (simp add: commitPatch_def Let_def bindIO_def swallow_def
        copyPathOf_def patchPathOf_def patchDirOf_def split: prod.split)
next
  assume a: "fst (access (backupPathOf filePath) s) = Inr ()"
    and b: "fst (lstat (parsePath filePath) s) = Inr SymbolicLink"
    and c: "unlink (parsePath filePath) s = (Inr (), s2)"
    and d: "copyFile (backupPathOf filePath) (parsePath filePath) s2 = (Inr (), s3)"
  have b': "lstat (parsePath filePath) s = (Inr SymbolicLink, s)"
    using b lstat_state [of "parsePath filePath" s]
    by (cases "lstat (parsePath filePath) s") simp
  show "revertPatch filePath s =
      (Inr (), snd (unlink (patchedPathOf filePath) (snd (unlink (backupPathOf filePath) s3))))"
    using access_eq [OF a] b' c d
    by (simp add: revertPatch_def Let_def bindIO_def swallow_def
        backupPathOf_def patchedPathOf_def patchDirOf_def split: prod.split)
qed

theorem cleanup_best_effort_witness:
  "fst (unlink (copyPathOf ''a.txt'')
     (snd (writeFile (patchPathOf ''a.txt'')
        (diffCreate prefixDiff (basename ''a.txt'') oneLine twoLines
           ''original'' ''modified'')
        (lockRecords (editedFs ''a.txt''))))) = Inl (SysError EPERM) \<and>
   fst (commitPatch prefixDiff ''a.txt'' (lockRecords (editedFs ''a.txt''))) = Inr () \<and>
   fst (unlink (backupPathOf ''a.txt'')
     (snd (copyFile (backupPathOf ''a.txt'') (parsePath ''a.txt'')
        (snd (unlink (parsePath ''a.txt'') (lockRecords (appliedFs ''a.txt''))))))) =
     Inl (SysError EPERM) \<and>
   fst (revertPatch ''a.txt'' (lockRecords (appliedFs ''a.txt''))) = Inr ()"
proof -
  let ?s = "lockRecords (editedFs ''a.txt'')"
  let ?text = "diffCreate prefixDiff (basename ''a.txt'') oneLine twoLines
      ''original'' ''modified''"
  let ?s1 = "snd (writeFile (patchPathOf ''a.txt'') ?text ?s)"
  have a: "fst (readFile (parsePath ''a.txt'') ?s) = Inr oneLine"
    by code_simp
  have b: "fst (readFile (copyPathOf ''a.txt'') ?s) = Inr twoLines"
    by code_simp
  have "fst (writeFile (patchPathOf ''a.txt'') ?text ?s) = Inr ()"
    by code_simp
  then have c: "writeFile (patchPathOf ''a.txt'') ?text ?s = (Inr (), ?s1)"
    by (simp add: prod_eq_iff)
  have d: "fst (unlink (copyPathOf ''a.txt'') ?s1) = Inl (SysError EPERM)"
    by code_simp
  let ?t = "lockRecords (appliedFs ''a.txt'')"
  let ?t2 = "snd (unlink (parsePath ''a.txt'') ?t)"
  let ?t3 = "snd (copyFile (backupPathOf ''a.txt'') (parsePath ''a.txt'') ?t2)"
  have e: "fst (access (backupPathOf ''a.txt'') ?t) = Inr ()"
    by code_simp
  have f: "fst (lstat (parsePath ''a.txt'') ?t) = Inr SymbolicLink"
    by code_simp
  have "fst (unlink (parsePath ''a.txt'') ?t) = Inr ()"
    by code_simp
  then have g: "unlink (parsePath ''a.txt'') ?t = (Inr (), ?t2)"
    by (simp add: prod_eq_iff)
  have "fst (copyFile (backupPathOf ''a.txt'') (parsePath ''a.txt'') ?t2) = Inr ()"
    by code_simp
  then have h: "copyFile (backupPathOf ''a.txt'') (parsePath ''a.txt'') ?t2 = (Inr (), ?t3)"
    by (simp add: prod_eq_iff)
  have i: "fst (unlink (backupPathOf ''a.txt'') ?t3) = Inl (SysError EPERM)"
    by code_simp
  show ?thesis
    using cleanup_best_effort [of "''a.txt''" ?s "oneLine" "twoLines" prefixDiff ?s1
        ?t2 ?t3] a b c d
      cleanup_best_effort [of "''a.txt''" ?t "oneLine" "twoLines" prefixDiff ?s1
        ?t2 ?t3] e f g h i
    by simp
qed

section \<open>What commit writes\<close>

text \<open>
  Claim C7. On a record that has its directory and no patch text yet, with the live file
  and the snapshot copy readable, \<open>commitPatch\<close> succeeds and the patch text it leaves is
  what the library's \<open>diffCreate\<close> answers for the file's base name, the live file's
  content as the old side, the snapshot copy's content as the new side, and the labels
  \<open>original\<close> and \<open>modified\<close>.
\<close>

theorem commit_diff_orientation:
  assumes "fst (readFile (parsePath filePath) s) = Inr originalContent"
    and "fst (readFile (copyPathOf filePath) s) = Inr modifiedContent"
    and "lookup s (resolve s (patchPathOf filePath)) = None"
    and "isDir s (resolve s (patchDirOf filePath))"
  shows "fst (commitPatch lib filePath s) = Inr () \<and>
    fst (readFile (patchPathOf filePath) (snd (commitPatch lib filePath s))) =
      Inr (diffCreate lib (basename filePath) originalContent modifiedContent
             ''original'' ''modified'')"
proof -
  let ?text = "diffCreate lib (basename filePath) originalContent modifiedContent
      ''original'' ''modified''"
  let ?P = "resolve s (patchPathOf filePath)"
  let ?s1 = "setNode ?P (Some (File ?text)) s"
  have P: "?P = resolve s (patchDirOf filePath) @ [basename filePath @ ''.patch'']"
    by (simp add: patchPathOf_def resolve_record)
  have w: "writeFile (patchPathOf filePath) ?text s = (Inr (), ?s1)"
    using assms(3,4) by (intro writeFile_new) (simp_all add: P)
  have c: "commitPatch lib filePath s = (Inr (), snd (unlink (copyPathOf filePath) ?s1))"
    using readFile_eq [OF assms(1)] readFile_eq [OF assms(2)] w
    by (simp add: commitPatch_def Let_def bindIO_def swallow_def
        copyPathOf_def patchPathOf_def patchDirOf_def split: prod.split)
  have "lookup ?s1 ?P = Some (File ?text)"
    by (simp add: lookup_setNode P)
  then have l: "lookup (snd (unlink (copyPathOf filePath) ?s1)) ?P = Some (File ?text)"
    using copy_ne_patch [of s filePath] by (intro unlink_other) simp_all
  have r: "resolve (snd (unlink (copyPathOf filePath) ?s1)) (patchPathOf filePath) = ?P"
    using unlink_state_cases [of "copyPathOf filePath" ?s1] by auto
  show ?thesis
    using c l r by (simp add: readFile_File)
qed

theorem commit_diff_orientation_witness:
  "fst (commitPatch prefixDiff ''a.txt'' (editedFs ''a.txt'')) = Inr () \<and>
   fst (readFile (patchPathOf ''a.txt'')
          (snd (commitPatch prefixDiff ''a.txt'' (editedFs ''a.txt'')))) =
     Inr (diffCreate prefixDiff ''a.txt'' oneLine twoLines ''original'' ''modified'')"
proof -
  have a: "fst (readFile (parsePath ''a.txt'') (editedFs ''a.txt'')) = Inr oneLine"
    by code_simp
  have b: "fst (readFile (copyPathOf ''a.txt'') (editedFs ''a.txt'')) = Inr twoLines"
    by code_simp
  have c: "lookup (editedFs ''a.txt'')
      (resolve (editedFs ''a.txt'') (patchPathOf ''a.txt'')) = None"
    by code_simp
  have d: "isDir (editedFs ''a.txt'') (resolve (editedFs ''a.txt'') (patchDirOf ''a.txt''))"
    by code_simp
  have e: "basename ''a.txt'' = ''a.txt''"
    by code_simp
  show ?thesis
    using commit_diff_orientation [OF a b c d, of prefixDiff] e by simp
qed

section \<open>The kind of the live path\<close>

text \<open>
  Claim C5. Take any run that starts with the live path a regular file and an empty
  record, and then calls the four operations and edits the snapshot in any order, each
  call succeeding or failing. In every state of the run, \<open>lstat\<close> of the live path
  reports a symbolic link if the last successful \<open>applyPatch\<close> has not been followed by
  a successful \<open>revertPatch\<close> (the Applied state), and a regular file otherwise: before
  any apply, and after a revert.
\<close>

theorem symlink_invariant:
  assumes "reachable lib filePath applied s"
  shows "fst (lstat (parsePath filePath) s) =
    Inr (if applied then SymbolicLink else RegularFile)"
  using reachable_liveAt [OF assms]
  by (auto simp add: lstat_def liveAt_def kindOf_def split: if_splits)

theorem symlink_invariant_witness:
  "fst (lstat (parsePath ''a.txt'') (committedFs ''a.txt'')) = Inr RegularFile \<and>
   fst (lstat (parsePath ''a.txt'') (appliedFs ''a.txt'')) = Inr SymbolicLink \<and>
   fst (lstat (parsePath ''a.txt'') (snd (revertPatch ''a.txt'' (appliedFs ''a.txt'')))) =
     Inr RegularFile"
proof -
  have "untracked ''a.txt'' sampleFs"
    by code_simp
  then have "reachable prefixDiff ''a.txt'' False sampleFs"
    by (rule reachable.start)
  then have "reachable prefixDiff ''a.txt'' False (trackedFs ''a.txt'')"
    unfolding trackedFs_def by (rule reachable.create)
  then have "reachable prefixDiff ''a.txt'' False (editedFs ''a.txt'')"
    unfolding editedFs_def by (rule reachable.edit)
  then have c: "reachable prefixDiff ''a.txt'' False (committedFs ''a.txt'')"
    unfolding committedFs_def by (rule reachable.commit)
  have "fst (applyPatch prefixDiff ''a.txt'' (committedFs ''a.txt'')) = Inr ()"
    by code_simp
  with c have a: "reachable prefixDiff ''a.txt'' True (appliedFs ''a.txt'')"
    unfolding appliedFs_def by (rule reachable.applySucceeded)
  have "fst (revertPatch ''a.txt'' (appliedFs ''a.txt'')) = Inr ()"
    by code_simp
  with a have r: "reachable prefixDiff ''a.txt'' False
      (snd (revertPatch ''a.txt'' (appliedFs ''a.txt'')))"
    by (rule reachable.revertSucceeded)
  show ?thesis
    using symlink_invariant [OF c] symlink_invariant [OF a] symlink_invariant [OF r]
    by simp
qed

section \<open>Revert after apply\<close>

text \<open>
  Claim C4, on a file that is applied twice. \<open>applyPatch\<close> has no test for a live path
  that is already a link, as \<open>revertPatch\<close> has. The file \<open>a.txt\<close> is applied, its live
  path reads as the two lines and its backup holds the one line. A second \<open>applyPatch\<close>
  succeeds: it rewrites the patched result first, then copies the backup through the
  link from that new patched result. The only backup of the original file is lost, and
  the \<open>revertPatch\<close> that follows restores the three lines: neither the content the live
  path had before this apply nor the original file.
\<close>

theorem revert_after_second_apply:
  "fst (readFile (parsePath ''a.txt'') (appliedFs ''a.txt'')) = Inr twoLines \<and>
   fst (readFile (backupPathOf ''a.txt'') (appliedFs ''a.txt'')) = Inr oneLine \<and>
   fst (applyPatch prefixDiff ''a.txt'' (appliedFs ''a.txt'')) = Inr () \<and>
   fst (revertPatch ''a.txt'' (snd (applyPatch prefixDiff ''a.txt'' (appliedFs ''a.txt'')))) =
     Inr () \<and>
   fst (readFile (parsePath ''a.txt'')
     (snd (revertPatch ''a.txt''
        (snd (applyPatch prefixDiff ''a.txt'' (appliedFs ''a.txt'')))))) =
     Inr threeLines \<and>
   threeLines \<noteq> twoLines"
  by code_simp

text \<open>
  Where the claim does hold: when the live path is a regular file, its directory exists
  and no file of the record is a symbolic link or the live path itself, a successful
  \<open>applyPatch\<close> followed at once by a successful \<open>revertPatch\<close> leaves the live path a
  regular file with the content it had before the apply.
\<close>

lemma revert_restores:
  assumes "lookup s (resolve s (parsePath filePath)) = Some (File content)"
    and "recordOk filePath s"
    and "fst (applyPatch lib filePath s) = Inr ()"
    and "fst (revertPatch filePath (snd (applyPatch lib filePath s))) = Inr ()"
  shows "fst (lstat (parsePath filePath)
           (snd (revertPatch filePath (snd (applyPatch lib filePath s))))) = Inr RegularFile \<and>
    fst (readFile (parsePath filePath)
           (snd (revertPatch filePath (snd (applyPatch lib filePath s))))) = Inr content"
proof -
  let ?s1 = "snd (applyPatch lib filePath s)"
  let ?s2 = "snd (revertPatch filePath ?s1)"
  have "liveAt filePath (File content) s"
    using assms(1,2) by (simp add: liveAt_def)
  from hoareD [OF applyPatch_triple this, of lib] assms(3)
  have l: "linkedAt filePath content ?s1"
    by simp
  have "liveAt filePath (File content) ?s2"
    using hoareD [OF revertPatch_triple [of filePath "Link (patchedPathOf filePath)" content],
        of ?s1] l assms(4)
    by (simp add: linkedAt_def)
  then have "lookup ?s2 (resolve ?s2 (parsePath filePath)) = Some (File content)"
    by (simp add: liveAt_def)
  then show ?thesis
    by (simp add: readFile_File lstat_def kindOf_def)
qed

lemma revert_restores_sample:
  "fst (lstat (parsePath ''a.txt'')
     (snd (revertPatch ''a.txt''
        (snd (applyPatch prefixDiff ''a.txt'' (committedFs ''a.txt'')))))) = Inr RegularFile \<and>
   fst (readFile (parsePath ''a.txt'')
     (snd (revertPatch ''a.txt''
        (snd (applyPatch prefixDiff ''a.txt'' (committedFs ''a.txt'')))))) = Inr oneLine"
proof -
  have a: "lookup (committedFs ''a.txt'')
      (resolve (committedFs ''a.txt'') (parsePath ''a.txt'')) = Some (File oneLine)"
    by code_simp
  have b: "recordOk ''a.txt'' (committedFs ''a.txt'')"
    by code_simp
  have c: "fst (applyPatch prefixDiff ''a.txt'' (committedFs ''a.txt'')) = Inr ()"
    by code_simp
  have d: "fst (revertPatch ''a.txt''
      (snd (applyPatch prefixDiff ''a.txt'' (committedFs ''a.txt'')))) = Inr ()"
    by code_simp
  show ?thesis
    by (rule revert_restores [OF a b c d])
qed

section \<open>What apply checks before it runs\<close>

text \<open>
  Claim C6, on a file that is already applied. \<open>applyPatch\<close> never looks at the kind of
  the live path. On the applied \<open>a.txt\<close>, whose live path is a link from the earlier
  apply, it reads through the link, the patch applies to what it reads, and it runs to
  the end with success: it rewrites the patched result and overwrites the backup.
\<close>

theorem apply_on_linked_path:
  "fst (lstat (parsePath ''a.txt'') (appliedFs ''a.txt'')) = Inr SymbolicLink \<and>
   fst (readFile (backupPathOf ''a.txt'') (appliedFs ''a.txt'')) = Inr oneLine \<and>
   fst (readFile (patchedPathOf ''a.txt'') (appliedFs ''a.txt'')) = Inr twoLines \<and>
   fst (applyPatch prefixDiff ''a.txt'' (appliedFs ''a.txt'')) = Inr () \<and>
   fst (lstat (parsePath ''a.txt'')
     (snd (applyPatch prefixDiff ''a.txt'' (appliedFs ''a.txt'')))) = Inr SymbolicLink \<and>
   fst (readFile (backupPathOf ''a.txt'')
     (snd (applyPatch prefixDiff ''a.txt'' (appliedFs ''a.txt'')))) =
     Inr threeLines \<and>
   fst (readFile (patchedPathOf ''a.txt'')
     (snd (applyPatch prefixDiff ''a.txt'' (appliedFs ''a.txt'')))) = Inr threeLines"
  by code_simp

text \<open>
  What \<open>applyPatch\<close> does check before its first write, in this order: the patch text is
  there, the live path can be read (through a link when it is one), the patch text can
  be read, the parse result has a first patch, and the library applies that patch to
  the content read. A check that fails ends the call with its error and the state it
  started from. The kind of the live path is not among the checks.
\<close>

lemma apply_guards:
  "applyPatch lib f s =
    (case fst (access (patchPathOf f) s) of
       Inl e \<Rightarrow> (Inl e, s)
     | Inr u \<Rightarrow>
        (case fst (readFile (parsePath f) s) of
           Inl e \<Rightarrow> (Inl e, s)
         | Inr c \<Rightarrow>
            (case fst (readFile (patchPathOf f) s) of
               Inl e \<Rightarrow> (Inl e, s)
             | Inr t \<Rightarrow>
                (case parsePatch lib t False of
                   [] \<Rightarrow> (Inl TypeError, s)
                 | first # others \<Rightarrow>
                    (case diffApply lib c first 3 of
                       None \<Rightarrow> (Inl ApplyFailed, s)
                     | Some result \<Rightarrow>
                        bindIO (writeFile (patchedPathOf f) result) (\<lambda>_.
                        bindIO (copyFile (parsePath f) (backupPathOf f)) (\<lambda>_.
                        bindIO (unlink (parsePath f)) (\<lambda>_.
                        symlink (patchedPathOf f) (parsePath f)))) s)))))"
proof -
  have unfolded: "applyPatch lib f =
      bindIO (access (patchPathOf f)) (\<lambda>_.
      bindIO (readFile (parsePath f)) (\<lambda>originalContent.
      bindIO (readFile (patchPathOf f)) (\<lambda>patchContent.
       case parsePatch lib patchContent False of
         [] \<Rightarrow> throwIO TypeError
       | first # others \<Rightarrow>
           (case diffApply lib originalContent first 3 of
              None \<Rightarrow> throwIO ApplyFailed
            | Some result \<Rightarrow>
                bindIO (writeFile (patchedPathOf f) result) (\<lambda>_.
                bindIO (copyFile (parsePath f) (backupPathOf f)) (\<lambda>_.
                bindIO (unlink (parsePath f)) (\<lambda>_.
                symlink (patchedPathOf f) (parsePath f))))))))"
    unfolding applyPatch_def Let_def patchPathOf_def patchedPathOf_def backupPathOf_def
      patchDirOf_def ..
  obtain r where r: "access (patchPathOf f) s = (r, s)"
    using access_eq by blast
  obtain c where c: "readFile (parsePath f) s = (c, s)"
    using readFile_eq by blast
  obtain t where t: "readFile (patchPathOf f) s = (t, s)"
    using readFile_eq by blast
  show ?thesis
    by (simp add: unfolded bindIO_def r c t throwIO_def
        split: sum.split list.split option.split)
qed

lemma apply_guards_sample:
  "applyPatch prefixDiff ''a.txt'' (trackedFs ''a.txt'') =
     (Inl (SysError ENOENT), trackedFs ''a.txt'')"
proof -
  have "fst (access (patchPathOf ''a.txt'') (trackedFs ''a.txt'')) = Inl (SysError ENOENT)"
    by code_simp
  then show ?thesis
    by (simp add: apply_guards)
qed

section \<open>Apply on a regular live file\<close>

text \<open>
  What \<open>applyPatch\<close> does when the live path is a regular file and the record is in
  shape. If it fails, the live path still holds the file. If it succeeds, the backup
  holds the content the live file had, and the live path holds a link whose stored
  target is the patched result's path as the program computes it: relative to the
  working directory.
\<close>

lemma apply_backs_up_first:
  assumes "liveAt f (File c) s"
  shows "(fst (applyPatch lib f s) = Inr () \<longrightarrow>
      lookup (snd (applyPatch lib f s)) (resolve s (parsePath f)) =
        Some (Link (patchedPathOf f)) \<and>
      lookup (snd (applyPatch lib f s)) (resolve s (backupPathOf f)) = Some (File c)) \<and>
    ((\<exists>e. fst (applyPatch lib f s) = Inl e) \<longrightarrow>
      lookup (snd (applyPatch lib f s)) (resolve s (parsePath f)) = Some (File c))"
proof -
  have r: "resolve (snd (applyPatch lib f s)) p = resolve s p" for p
    by (rule resolve_cwd) (rule cwd_applyPatch)
  from hoareD [OF applyPatch_triple assms, of lib] show ?thesis
    by (cases "fst (applyPatch lib f s)") (auto simp add: linkedAt_def liveAt_def r)
qed

text \<open>
  For a live file that lies in the working directory the link leads to the patched
  result, and the round trip holds: track the file, edit the snapshot, commit, apply,
  with a library that gives the edited text back when its patch is applied to the
  original; then the live path reads as the edited text.
\<close>

lemma round_trip_in_cwd:
  assumes start: "untracked f s0"
    and content: "lookup s0 (resolve s0 (parsePath f)) = Some (File original)"
    and here: "butlast (resolve s0 (parsePath f)) = cwd s0"
    and s1: "s1 = snd (createPatch f s0)"
    and s2: "s2 = snd (writeFile (copyPathOf f) edited s1)"
      and edit: "fst (writeFile (copyPathOf f) edited s1) = Inr ()"
    and s3: "s3 = snd (commitPatch lib f s2)"
      and commit: "fst (commitPatch lib f s2) = Inr ()"
    and s4: "s4 = snd (applyPatch lib f s3)"
      and applied: "fst (applyPatch lib f s3) = Inr ()"
    and parse: "parsePatch lib
        (diffCreate lib (basename f) original edited ''original'' ''modified'') False =
        first # others"
    and match: "diffApply lib original first 3 = Some edited"
  shows "fst (readFile (parsePath f) s4) = Inr edited"
proof -
  have c1: "cwd s1 = cwd s0" by (simp add: s1 cwd_createPatch)
  have c2: "cwd s2 = cwd s0" by (simp add: s2 cwd_writeFile c1)
  have c3: "cwd s3 = cwd s0" by (simp add: s3 cwd_commitPatch c2)
  have r1: "resolve s1 p = resolve s0 p" for p using c1 by (rule resolve_cwd)
  have r2: "resolve s2 p = resolve s0 p" for p using c2 by (rule resolve_cwd)
  have r3: "resolve s3 p = resolve s0 p" for p using c3 by (rule resolve_cwd)
  have l0: "liveAt f (File original) s0"
    using untracked_liveAt [OF start] content by (auto simp add: liveAt_def)
  have l1: "liveAt f (File original) s1"
    unfolding s1 using hoareD [OF createPatch_keeps l0] .
  from hoareD [OF hoare_writeFile_record [OF recordPaths_mem(1)] l1, of edited] edit
  have l2: "liveAt f (File original) s2"
    and e2: "lookup s2 (resolve s2 (copyPathOf f)) = Some (File edited)"
    by (simp_all add: s2)
  have l3: "liveAt f (File original) s3"
    unfolding s3 using hoareD [OF commitPatch_keeps l2] .
  have "lookup s3 (resolve s3 (patchPathOf f)) =
      Some (File (diffCreate lib (basename f) original edited ''original'' ''modified''))"
    using commit_patch_content [OF l2 e2 commit] by (simp add: s3 [symmetric] r2 r3)
  then have t3: "fst (readFile (patchPathOf f) s3) =
      Inr (diffCreate lib (basename f) original edited ''original'' ''modified'')"
    by (simp add: readFile_File)
  have "butlast (resolve s3 (parsePath f)) = cwd s3"
    using here by (simp add: r3 c3)
  from apply_resolves_in_cwd [OF l3 applied this] t3 parse match show ?thesis
    by (auto simp add: s4)
qed

lemma round_trip_in_cwd_sample:
  "fst (readFile (parsePath ''a.txt'') (appliedFs ''a.txt'')) = Inr twoLines"
proof -
  have a: "untracked ''a.txt'' sampleFs"
    by code_simp
  have b: "lookup sampleFs (resolve sampleFs (parsePath ''a.txt'')) = Some (File oneLine)"
    by code_simp
  have c: "butlast (resolve sampleFs (parsePath ''a.txt'')) = cwd sampleFs"
    by code_simp
  have d: "fst (writeFile (copyPathOf ''a.txt'') twoLines (trackedFs ''a.txt'')) = Inr ()"
    by code_simp
  have e: "fst (commitPatch prefixDiff ''a.txt'' (editedFs ''a.txt'')) = Inr ()"
    by code_simp
  have f: "fst (applyPatch prefixDiff ''a.txt'' (committedFs ''a.txt'')) = Inr ()"
    by code_simp
  have g: "parsePatch prefixDiff
      (diffCreate prefixDiff (basename ''a.txt'') oneLine twoLines ''original'' ''modified'')
      False = (oneLine, twoLines) # []"
    by code_simp
  have h: "diffApply prefixDiff oneLine (oneLine, twoLines) 3 = Some twoLines"
    by code_simp
  show ?thesis
    by (rule round_trip_in_cwd [OF a b c trackedFs_def editedFs_def d committedFs_def e
          appliedFs_def f g h])
qed

section \<open>Where the link points\<close>

text \<open>
  Claim C1, on a file that is not in the working directory. The file \<open>sub/a.txt\<close> is
  tracked, its snapshot is edited, the patch is committed and applied, every step
  succeeds and the live file is not touched in between. The link that \<open>applyPatch\<close>
  leaves at the live path stores the patched result's path relative to the working
  directory, so it is read from \<open>sub\<close> and leads nowhere: the live path does not resolve
  to the edited content.
\<close>

theorem round_trip_outside_cwd:
  "fst (createPatch ''sub/a.txt'' sampleFs) = Inr () \<and>
   fst (writeFile (copyPathOf ''sub/a.txt'') twoLines (trackedFs ''sub/a.txt'')) =
     Inr () \<and>
   fst (commitPatch prefixDiff ''sub/a.txt'' (editedFs ''sub/a.txt'')) = Inr () \<and>
   fst (readFile (parsePath ''sub/a.txt'') (committedFs ''sub/a.txt'')) = Inr oneLine \<and>
   fst (applyPatch prefixDiff ''sub/a.txt'' (committedFs ''sub/a.txt'')) = Inr () \<and>
   fst (readFile (parsePath ''sub/a.txt'') (appliedFs ''sub/a.txt'')) =
     Inl (SysError ENOENT)"
  by code_simp

text \<open>
  Claim C8, on the same file. After the successful \<open>applyPatch\<close> the patched result
  holds the new content and the backup the old one, but the link at \<open>/w/sub/a.txt\<close>
  stores \<open>patches/a.txt/a.txt.patched\<close>: it resolves to
  \<open>/w/sub/patches/a.txt/a.txt.patched\<close>, which does not exist, and not to the patched
  result \<open>/w/patches/a.txt/a.txt.patched\<close>.
\<close>

theorem link_target_outside_cwd:
  "fst (applyPatch prefixDiff ''sub/a.txt'' (committedFs ''sub/a.txt'')) = Inr () \<and>
   lookup (appliedFs ''sub/a.txt'') [''w'', ''sub'', ''a.txt''] =
     Some (Link (Path False [''patches'', ''a.txt'', ''a.txt.patched''])) \<and>
   realpath (appliedFs ''sub/a.txt'') (parsePath ''sub/a.txt'') =
     Inr [''w'', ''sub'', ''patches'', ''a.txt'', ''a.txt.patched''] \<and>
   resolve (appliedFs ''sub/a.txt'') (patchedPathOf ''sub/a.txt'') =
     [''w'', ''patches'', ''a.txt'', ''a.txt.patched''] \<and>
   fst (readFile (patchedPathOf ''sub/a.txt'') (appliedFs ''sub/a.txt'')) =
     Inr twoLines \<and>
   fst (readFile (backupPathOf ''sub/a.txt'') (appliedFs ''sub/a.txt'')) = Inr oneLine \<and>
   fst (access (parsePath ''sub/a.txt'') (appliedFs ''sub/a.txt'')) = Inl (SysError ENOENT)"
  by code_simp

end
